theory Spec2Isabelle
  imports Main "HOL-Library.AList"
begin

section \<open>The chat server of \<^verbatim>\<open>src/server.js\<close>: presence registry and message routing\<close>

text \<open>
  The server keeps one global object \<^verbatim>\<open>onlineUsers\<close>, keyed by socket id, whose values are
  \<^verbatim>\<open>{ username, room }\<close>. A JavaScript object enumerates its string keys that are not
  array indices in insertion order (socket ids are twenty random characters); assigning to
  an existing key keeps its position and \<^verbatim>\<open>delete\<close> removes it. That is an association
  list with \<open>AList.update\<close> and \<open>AList.delete\<close>.

  The wire types are fixed as follows: a user name and a room name are strings, the room of
  a user is \<^verbatim>\<open>null\<close> (\<open>None\<close>) or a string, and the payload \<^verbatim>\<open>data\<close> of a message or typing
  event is absent (\<open>None\<close>, JavaScript \<^verbatim>\<open>undefined\<close>) or an object whose fields
  \<^verbatim>\<open>to_user\<close> and \<^verbatim>\<open>message\<close> are each absent or a string.
\<close>

subsection \<open>Data\<close>

type_synonym sid = string

record user =
  username :: string
  room :: "string option"

type_synonym registry = "(sid \<times> user) list"

record data =
  to_user :: "string option"
  message :: "string option"

text \<open>The documents of the two message collections, with the fields the handlers set.\<close>

record group_message =
  gm_from_user :: string
  gm_room :: string
  gm_message :: "string option"
  gm_date_sent :: nat

record private_message =
  pm_from_user :: string
  pm_to_user :: "string option"
  pm_message :: "string option"
  pm_date_sent :: nat

text \<open>
  The transport is socket.io. Its adapter holds the pairs (socket, room); \<^verbatim>\<open>socket.join\<close>
  adds a pair, \<^verbatim>\<open>socket.leave\<close> removes it, every socket joins the room named by its own id
  when it connects and leaves all its rooms before its \<^verbatim>\<open>disconnect\<close> event is dispatched.
  \<^verbatim>\<open>io.to(r).emit\<close> reaches the sockets in room \<open>r\<close>, \<^verbatim>\<open>socket.to(r).emit\<close> the same
  sockets but the emitting one, and \<^verbatim>\<open>socket.emit\<close> the socket itself. No socket is in a
  room \<^verbatim>\<open>null\<close>, so \<^verbatim>\<open>io.to(null).emit\<close> reaches nobody.
\<close>

type_synonym adapter = "(sid \<times> string) list"

datatype target = IoTo string | IoToNull | SocketTo sid string | SocketEmit sid

datatype payload =
    RoomMessage string "string option" nat
  | UpdateUsers "string list"
  | PrivateMsg string "string option" "string option" nat
  | FromUser string

text \<open>
  What a handler does besides changing the registry, in the order it does it: a document
  saved, or an event emitted (target, event name, payload, and the sockets that the adapter
  delivers it to at that moment).
\<close>

datatype action =
    SaveGroup group_message
  | SavePrivate private_message
  | Emit target string payload "sid list"

text \<open>
  A \<^verbatim>\<open>groupMessage\<close> handler that waits at \<^verbatim>\<open>await msg.save()\<close>. It holds the payload,
  the fields it gave to \<^verbatim>\<open>new GroupMessage\<close>, and the object \<^verbatim>\<open>user\<close> it read from
  \<^verbatim>\<open>onlineUsers[socket.id]\<close>. That object is the registry entry of its socket, and changes
  with it, until \<^verbatim>\<open>registerUser\<close> puts a new object there or \<^verbatim>\<open>disconnect\<close> deletes the
  key; from then on no handler can reach it and it keeps the value it had
  (\<open>ps_detached\<close>, with the value in \<open>ps_user\<close>).
\<close>

record pending_save =
  ps_socket :: sid
  ps_user :: user
  ps_detached :: bool
  ps_from_user :: string
  ps_room :: string
  ps_data :: data

record state =
  onlineUsers :: registry
  rooms :: adapter
  groupMessages :: "group_message list"
  privateMessages :: "private_message list"
  pending :: "pending_save list"

datatype js_error = TypeError | StoreFailure

type_synonym result = "js_error + (state \<times> action list)"

subsection \<open>Registry and adapter\<close>

definition lookup :: "registry \<Rightarrow> sid \<Rightarrow> user option" where
  "lookup reg k = map_of reg k"

text \<open>JavaScript truthiness of a string: only the empty string is falsy.\<close>

definition truthy :: "string \<Rightarrow> bool" where
  "truthy s = (s \<noteq> [])"

definition truthy_opt :: "string option \<Rightarrow> bool" where
  "truthy_opt v = (case v of None \<Rightarrow> False | Some s \<Rightarrow> truthy s)"

definition getUsersInRoom :: "registry \<Rightarrow> string \<Rightarrow> string list" where
  "getUsersInRoom reg r = map username (filter (\<lambda>u. room u = Some r) (map snd reg))"

text \<open>
  \<^verbatim>\<open>Object.keys(onlineUsers).find(id => onlineUsers[id].username === data.to_user)\<close>:
  the first key, in key order, whose user has that name. An absent \<^verbatim>\<open>to_user\<close> equals
  no user name.
\<close>

definition findRecipient :: "registry \<Rightarrow> string option \<Rightarrow> sid option" where
  "findRecipient reg to =
     find (\<lambda>k. case lookup reg k of None \<Rightarrow> False | Some u \<Rightarrow> Some (username u) = to)
          (map fst reg)"

definition socket_join :: "sid \<Rightarrow> string \<Rightarrow> adapter \<Rightarrow> adapter" where
  "socket_join s r ad = (if (s, r) \<in> set ad then ad else ad @ [(s, r)])"

definition socket_leave :: "sid \<Rightarrow> string \<Rightarrow> adapter \<Rightarrow> adapter" where
  "socket_leave s r ad = filter (\<lambda>p. p \<noteq> (s, r)) ad"

definition leaveAll :: "sid \<Rightarrow> adapter \<Rightarrow> adapter" where
  "leaveAll s ad = filter (\<lambda>p. fst p \<noteq> s) ad"

definition members :: "adapter \<Rightarrow> string \<Rightarrow> sid list" where
  "members ad r = map fst (filter (\<lambda>p. snd p = r) ad)"

fun recipients :: "adapter \<Rightarrow> target \<Rightarrow> sid list" where
  "recipients ad (IoTo r) = members ad r"
| "recipients ad IoToNull = []"
| "recipients ad (SocketTo s r) = filter (\<lambda>x. x \<noteq> s) (members ad r)"
| "recipients ad (SocketEmit s) = [s]"

definition emit :: "adapter \<Rightarrow> target \<Rightarrow> string \<Rightarrow> payload \<Rightarrow> action" where
  "emit ad tgt tag p = Emit tgt tag p (recipients ad tgt)"

subsection \<open>The handlers\<close>

text \<open>
  Each handler takes the socket id of the connection it was installed for. \<open>now\<close> is the
  value of \<^verbatim>\<open>new Date()\<close>. A handler that throws, or whose promise rejects, returns \<open>Inl\<close>;
  every throw in the source comes before the first change of state or emission.
\<close>

definition registerUser :: "sid \<Rightarrow> string \<Rightarrow> state \<Rightarrow> result" where
  "registerUser s name st =
     Inr (st\<lparr>onlineUsers := AList.update s \<lparr>username = name, room = None\<rparr> (onlineUsers st)\<rparr>, [])"

definition leftNotice :: "user \<Rightarrow> nat \<Rightarrow> payload" where
  "leftNotice u now = RoomMessage ''System'' (Some (username u @ '' has left the room'')) now"

definition joinedNotice :: "user \<Rightarrow> nat \<Rightarrow> payload" where
  "joinedNotice u now = RoomMessage ''System'' (Some (username u @ '' has joined the room'')) now"

definition disconnectedNotice :: "user \<Rightarrow> nat \<Rightarrow> payload" where
  "disconnectedNotice u now =
     RoomMessage ''System'' (Some (username u @ '' has disconnected'')) now"

text \<open>
  The implicit leave of \<^verbatim>\<open>joinRoom\<close>: it leaves the transport room and emits the notice and
  the user list of the old room while \<^verbatim>\<open>user.room\<close> still is the old room; the registry is
  written only afterwards.
\<close>

definition joinRoom :: "sid \<Rightarrow> string \<Rightarrow> nat \<Rightarrow> state \<Rightarrow> result" where
  "joinRoom s r now st =
     (case lookup (onlineUsers st) s of
        None \<Rightarrow> Inr (st, [])
      | Some u \<Rightarrow>
          let (ad1, left) =
                (case room u of
                   None \<Rightarrow> (rooms st, [])
                 | Some old \<Rightarrow>
                     if truthy old then
                       (let ad = socket_leave s old (rooms st)
                        in (ad, [emit ad (IoTo old) ''roomMessage'' (leftNotice u now),
                                 emit ad (IoTo old) ''updateUsers''
                                   (UpdateUsers (getUsersInRoom (onlineUsers st) old))]))
                     else (rooms st, []));
              reg = AList.update s (u\<lparr>room := Some r\<rparr>) (onlineUsers st);
              ad2 = socket_join s r ad1
          in Inr (st\<lparr>onlineUsers := reg, rooms := ad2\<rparr>,
                  left @ [emit ad2 (IoTo r) ''roomMessage'' (joinedNotice u now),
                          emit ad2 (IoTo r) ''updateUsers'' (UpdateUsers (getUsersInRoom reg r))]))"

definition leaveRoom :: "sid \<Rightarrow> nat \<Rightarrow> state \<Rightarrow> result" where
  "leaveRoom s now st =
     (case lookup (onlineUsers st) s of
        None \<Rightarrow> Inr (st, [])
      | Some u \<Rightarrow>
          (case room u of
             None \<Rightarrow> Inr (st, [])
           | Some r \<Rightarrow>
               if \<not> truthy r then Inr (st, [])
               else
                 let ad = socket_leave s r (rooms st);
                     reg = AList.update s (u\<lparr>room := None\<rparr>) (onlineUsers st)
                 in Inr (st\<lparr>onlineUsers := reg, rooms := ad\<rparr>,
                         [emit ad (IoTo r) ''roomMessage'' (leftNotice u now),
                          emit ad (IoTo r) ''updateUsers'' (UpdateUsers (getUsersInRoom reg r))])))"

text \<open>
  \<^verbatim>\<open>groupMessage\<close> is an async function: it runs to \<^verbatim>\<open>await msg.save()\<close>, other handlers
  run while the save is pending, and the rest runs when the save settles. The first part
  is \<open>groupMessage\<close>: the guards, \<^verbatim>\<open>data.message\<close> (a throw for an absent payload) and
  \<^verbatim>\<open>new GroupMessage\<close> with \<^verbatim>\<open>user.username\<close> and \<^verbatim>\<open>user.room\<close> as they are then.
\<close>

definition groupMessage :: "sid \<Rightarrow> data option \<Rightarrow> state \<Rightarrow> result" where
  "groupMessage s dat st =
     (case lookup (onlineUsers st) s of
        None \<Rightarrow> Inr (st, [])
      | Some u \<Rightarrow>
          (case room u of
             None \<Rightarrow> Inr (st, [])
           | Some r \<Rightarrow>
               if \<not> truthy r then Inr (st, [])
               else
                 (case dat of
                    None \<Rightarrow> Inl TypeError
                  | Some d \<Rightarrow>
                      Inr (st\<lparr>pending := pending st @
                                [\<lparr>ps_socket = s, ps_user = u, ps_detached = False,
                                  ps_from_user = username u, ps_room = r, ps_data = d\<rparr>]\<rparr>,
                           []))))"

text \<open>The object \<^verbatim>\<open>user\<close> of a waiting handler, as it is in state \<open>st\<close>.\<close>

definition captured :: "state \<Rightarrow> pending_save \<Rightarrow> user" where
  "captured st p =
     (if ps_detached p then ps_user p
      else (case lookup (onlineUsers st) (ps_socket p) of None \<Rightarrow> ps_user p | Some u \<Rightarrow> u))"

text \<open>
  The second part, for the waiting handler number \<open>n\<close>, in the state in which its save
  settles. The model files are not part of the sources, so the answer of the store is a
  parameter \<open>saved\<close>: \<open>None\<close> is a rejected save, and the handler throws; \<open>Some t\<close> is a
  document stored with \<^verbatim>\<open>date_sent\<close> \<open>t\<close>. The handler then emits to
  \<^verbatim>\<open>io.to(user.room)\<close> with \<^verbatim>\<open>user.room\<close> read again from the object it holds.
\<close>

definition groupMessage_resume :: "nat \<Rightarrow> nat option \<Rightarrow> state \<Rightarrow> result" where
  "groupMessage_resume n saved st =
     (case saved of
        None \<Rightarrow> Inl StoreFailure
      | Some t \<Rightarrow>
          let p = pending st ! n;
              u = captured st p;
              msg = \<lparr>gm_from_user = ps_from_user p, gm_room = ps_room p,
                     gm_message = message (ps_data p), gm_date_sent = t\<rparr>;
              tgt = (case room u of None \<Rightarrow> IoToNull | Some r \<Rightarrow> IoTo r)
          in Inr (st\<lparr>groupMessages := groupMessages st @ [msg],
                     pending := take n (pending st) @ drop (Suc n) (pending st)\<rparr>,
                  [SaveGroup msg,
                   emit (rooms st) tgt ''roomMessage''
                     (RoomMessage (username u) (message (ps_data p)) t)]))"

text \<open>
  What \<^verbatim>\<open>registerUser\<close> and \<^verbatim>\<open>disconnect\<close> of socket \<open>s\<close> mean for the handlers of \<open>s\<close>
  that wait: the object they hold leaves the registry with the value it has.
\<close>

definition detach :: "sid \<Rightarrow> state \<Rightarrow> state" where
  "detach s st =
     st\<lparr>pending :=
          map (\<lambda>p. if ps_socket p = s \<and> \<not> ps_detached p
                   then p\<lparr>ps_user := captured st p, ps_detached := True\<rparr> else p)
              (pending st)\<rparr>"

text \<open>
  \<^verbatim>\<open>privateMessage\<close> waits for its save too. After the wait it reads the registry afresh
  and, of the object it holds, only \<^verbatim>\<open>username\<close>, which no handler assigns; it is followed
  from its call to its end, with the answer of the store as the parameter \<open>saved\<close>.
\<close>

definition toRecipient :: "state \<Rightarrow> string option \<Rightarrow> string \<Rightarrow> payload \<Rightarrow> action list" where
  "toRecipient st to tag p =
     (case findRecipient (onlineUsers st) to of
        None \<Rightarrow> []
      | Some k \<Rightarrow> if truthy k then [emit (rooms st) (IoTo k) tag p] else [])"

definition privateMessage :: "sid \<Rightarrow> data option \<Rightarrow> nat option \<Rightarrow> state \<Rightarrow> result" where
  "privateMessage s dat saved st =
     (case lookup (onlineUsers st) s of
        None \<Rightarrow> Inr (st, [])
      | Some u \<Rightarrow>
          (case dat of
             None \<Rightarrow> Inl TypeError
           | Some d \<Rightarrow>
               (case saved of
                  None \<Rightarrow> Inl StoreFailure
                | Some t \<Rightarrow>
                    let msg = \<lparr>pm_from_user = username u, pm_to_user = to_user d,
                               pm_message = message d, pm_date_sent = t\<rparr>;
                        p = PrivateMsg (username u) (to_user d) (message d) t
                    in Inr (st\<lparr>privateMessages := privateMessages st @ [msg]\<rparr>,
                            SavePrivate msg # toRecipient st (to_user d) ''privateMessage'' p
                              @ [emit (rooms st) (SocketEmit s) ''privateMessage'' p]))))"

text \<open>
  The body shared by \<^verbatim>\<open>typing\<close> and \<^verbatim>\<open>stopTyping\<close> once the condition of their first
  \<^verbatim>\<open>if\<close> has its value \<open>to\<close>: \<^verbatim>\<open>data.to_user\<close> in the first,
  \<^verbatim>\<open>data && data.to_user\<close> in the second.
\<close>

definition indicator :: "string \<Rightarrow> sid \<Rightarrow> user \<Rightarrow> string option \<Rightarrow> state \<Rightarrow> action list" where
  "indicator tag s u to st =
     (if truthy_opt to then toRecipient st to tag (FromUser (username u))
      else (case room u of
              None \<Rightarrow> []
            | Some r \<Rightarrow>
                if truthy r then [emit (rooms st) (SocketTo s r) tag (FromUser (username u))]
                else []))"

definition typing :: "sid \<Rightarrow> data option \<Rightarrow> state \<Rightarrow> result" where
  "typing s dat st =
     (case lookup (onlineUsers st) s of
        None \<Rightarrow> Inr (st, [])
      | Some u \<Rightarrow>
          (case dat of
             None \<Rightarrow> Inl TypeError
           | Some d \<Rightarrow> Inr (st, indicator ''typing'' s u (to_user d) st)))"

definition stopTyping :: "sid \<Rightarrow> data option \<Rightarrow> state \<Rightarrow> result" where
  "stopTyping s dat st =
     (case lookup (onlineUsers st) s of
        None \<Rightarrow> Inr (st, [])
      | Some u \<Rightarrow>
          Inr (st, indicator ''stopTyping'' s u
                     (case dat of None \<Rightarrow> None | Some d \<Rightarrow> to_user d) st))"

definition disconnect :: "sid \<Rightarrow> nat \<Rightarrow> state \<Rightarrow> result" where
  "disconnect s now st =
     (let notes =
            (case lookup (onlineUsers st) s of
               None \<Rightarrow> []
             | Some u \<Rightarrow>
                 (case room u of
                    None \<Rightarrow> []
                  | Some r \<Rightarrow>
                      if truthy r then
                        [emit (rooms st) (IoTo r) ''roomMessage'' (disconnectedNotice u now),
                         emit (rooms st) (IoTo r) ''updateUsers''
                           (UpdateUsers (getUsersInRoom (onlineUsers st) r))]
                      else []))
      in Inr (st\<lparr>onlineUsers := AList.delete s (onlineUsers st)\<rparr>, notes))"

subsection \<open>The private history query\<close>

text \<open>
  \<^verbatim>\<open>PrivateMessage.find({$or: [...]}).sort({date_sent: 1}).limit(100)\<close> over the stored
  documents: a filter, a sort by \<^verbatim>\<open>date_sent\<close> and the first hundred.
\<close>

definition queryPrivate :: "string \<Rightarrow> string \<Rightarrow> private_message list \<Rightarrow> private_message list" where
  "queryPrivate user1 user2 docs =
     take 100 (sort_key pm_date_sent
       (filter (\<lambda>m. (pm_from_user m = user1 \<and> pm_to_user m = Some user2)
                  \<or> (pm_from_user m = user2 \<and> pm_to_user m = Some user1)) docs))"

subsection \<open>Events\<close>

datatype event =
    Connection
  | RegisterUser string
  | JoinRoom string
  | LeaveRoom
  | GroupMessage "data option"
  | PrivateMessage "data option"
  | Typing "data option"
  | StopTyping "data option"
  | Disconnect
  | SaveSettled nat

text \<open>
  One event of one connection, with the clock and the answer of the store it meets. The
  transport's own work is done here: the socket's room of its own on connection, and leaving
  every room before the \<^verbatim>\<open>disconnect\<close> handler runs. \<open>SaveSettled n\<close> is not sent by a
  client: it is the moment at which the save of the waiting \<^verbatim>\<open>groupMessage\<close> handler
  number \<open>n\<close>, one of this connection, settles.
\<close>

type_synonym input = "sid \<times> event \<times> nat \<times> nat option"

fun handle :: "state \<Rightarrow> input \<Rightarrow> result" where
  "handle st (s, Connection, now, saved) = Inr (st\<lparr>rooms := socket_join s s (rooms st)\<rparr>, [])"
| "handle st (s, RegisterUser name, now, saved) = registerUser s name (detach s st)"
| "handle st (s, JoinRoom r, now, saved) = joinRoom s r now st"
| "handle st (s, LeaveRoom, now, saved) = leaveRoom s now st"
| "handle st (s, GroupMessage dat, now, saved) = groupMessage s dat st"
| "handle st (s, PrivateMessage dat, now, saved) = privateMessage s dat saved st"
| "handle st (s, Typing dat, now, saved) = typing s dat st"
| "handle st (s, StopTyping dat, now, saved) = stopTyping s dat st"
| "handle st (s, Disconnect, now, saved) =
     disconnect s now (detach s (st\<lparr>rooms := leaveAll s (rooms st)\<rparr>))"
| "handle st (s, SaveSettled n, now, saved) =
     (if n < length (pending st) \<and> ps_socket (pending st ! n) = s
      then groupMessage_resume n saved st else Inr (st, []))"

text \<open>
  The state that a throwing handler leaves: the state as it was, less the waiting handler
  that has just ended with the throw of a rejected save.
\<close>

definition dropped :: "state \<Rightarrow> input \<Rightarrow> state" where
  "dropped st i =
     (case fst (snd i) of
        SaveSettled n \<Rightarrow> st\<lparr>pending := take n (pending st) @ drop (Suc n) (pending st)\<rparr>
      | _ \<Rightarrow> st)"

definition step :: "state \<Rightarrow> input \<Rightarrow> state" where
  "step st i = (case handle st i of Inl e \<Rightarrow> dropped st i | Inr (st', acts) \<Rightarrow> st')"

fun run :: "state \<Rightarrow> input list \<Rightarrow> state" where
  "run st [] = st"
| "run st (i # is) = run (step st i) is"

definition init :: state where
  "init = \<lparr>onlineUsers = [], rooms = [], groupMessages = [], privateMessages = [],
           pending = []\<rparr>"

subsection \<open>Reachable states\<close>

text \<open>
  What every state reached from \<open>init\<close> satisfies: the keys of the registry are distinct,
  and a socket whose registry entry names a room is in that room at the transport.
\<close>

definition wf_state :: "state \<Rightarrow> bool" where
  "wf_state st = (distinct (map fst (onlineUsers st)) \<and>
     (\<forall>s u r. lookup (onlineUsers st) s = Some u \<and> room u = Some r \<longrightarrow> (s, r) \<in> set (rooms st)))"

text \<open>Scenarios used to exercise the theorems on concrete inputs.\<close>

definition alice_bob_sports :: "input list" where
  "alice_bob_sports =
     [(''c1'', Connection, 0, None), (''c1'', RegisterUser ''alice'', 0, None),
      (''c1'', JoinRoom ''sports'', 1, None),
      (''c2'', Connection, 2, None), (''c2'', RegisterUser ''bob'', 2, None),
      (''c2'', JoinRoom ''sports'', 3, None)]"

definition two_alices :: "input list" where
  "two_alices =
     [(''c1'', Connection, 0, None), (''c1'', RegisterUser ''alice'', 0, None),
      (''c2'', Connection, 1, None), (''c2'', RegisterUser ''alice'', 1, None),
      (''c1'', JoinRoom ''sports'', 2, None)]"

text \<open>
  The events of connection \<open>s\<close> that write or remove its registry entry as a whole:
  \<^verbatim>\<open>registerUser\<close> and \<^verbatim>\<open>disconnect\<close>.
\<close>

definition renames :: "sid \<Rightarrow> input \<Rightarrow> bool" where
  "renames s i = (fst i = s \<and>
     (case fst (snd i) of RegisterUser n \<Rightarrow> True | Disconnect \<Rightarrow> True | _ \<Rightarrow> False))"

text \<open>
  Alice sends a group message in sports and joins devops while its save is pending.
\<close>

definition alice_switches :: "input list" where
  "alice_switches =
     alice_bob_sports @
     [(''c1'', GroupMessage (Some \<lparr>to_user = None, message = Some ''hi''\<rparr>), 4, None),
      (''c1'', JoinRoom ''devops'', 5, None)]"

text \<open>
  Alice joins the room named by the socket id of Bob, and Carol connects.
\<close>

definition alice_listens :: "input list" where
  "alice_listens =
     alice_bob_sports @
     [(''c1'', JoinRoom ''c2'', 4, None),
      (''c3'', Connection, 5, None), (''c3'', RegisterUser ''carol'', 5, None)]"

text \<open>
  The transport dispatches the events of a socket between its connection and its
  disconnection only, and gives an id to one connection only. \<open>disciplined cs ins\<close> says
  so of the events \<open>ins\<close> when the sockets \<open>cs\<close> are connected at the start. A save may
  settle at any time.
\<close>

definition admissible :: "sid list \<Rightarrow> input \<Rightarrow> bool" where
  "admissible cs i =
     (case fst (snd i) of
        Connection \<Rightarrow> fst i \<notin> set cs
      | SaveSettled n \<Rightarrow> True
      | _ \<Rightarrow> fst i \<in> set cs)"

definition track :: "sid list \<Rightarrow> input \<Rightarrow> sid list" where
  "track cs i =
     (case fst (snd i) of
        Connection \<Rightarrow> fst i # cs
      | Disconnect \<Rightarrow> removeAll (fst i) cs
      | _ \<Rightarrow> cs)"

fun disciplined :: "sid list \<Rightarrow> input list \<Rightarrow> bool" where
  "disciplined cs [] = True"
| "disciplined cs (i # is) = (admissible cs i \<and> disciplined (track cs i) is)"

text \<open>An event that asks to join the room named \<open>r\<close>.\<close>

definition joins :: "string \<Rightarrow> input \<Rightarrow> bool" where
  "joins r i = (fst (snd i) = JoinRoom r)"

text \<open>
  What holds of the room named by the socket id \<open>k\<close> as long as no event asks to join it:
  registered sockets are connected, \<open>k\<close> is in that room while it is connected, nobody
  else is, and no registry entry names it.
\<close>

definition own_room :: "sid \<Rightarrow> sid list \<Rightarrow> state \<Rightarrow> bool" where
  "own_room k cs st =
     (distinct (rooms st)
      \<and> (\<forall>s u. lookup (onlineUsers st) s = Some u \<longrightarrow> s \<in> set cs \<and> room u \<noteq> Some k)
      \<and> (k \<in> set cs \<longrightarrow> (k, k) \<in> set (rooms st))
      \<and> (\<forall>s. (s, k) \<in> set (rooms st) \<longrightarrow> s = k))"

section \<open>Properties\<close>

subsection \<open>Registry, adapter and the invariant\<close>

lemma lookup_update: "lookup (AList.update k v reg) k' = (if k' = k then Some v else lookup reg k')"
  by (simp add: lookup_def update_conv')

lemma lookup_delete: "lookup (AList.delete k reg) k' = (if k' = k then None else lookup reg k')"
  by (simp add: lookup_def delete_conv')

lemma set_socket_join: "set (socket_join s r ad) = insert (s, r) (set ad)"
  by (auto simp: socket_join_def)

lemma set_socket_leave: "set (socket_leave s r ad) = set ad - {(s, r)}"
  by (auto simp: socket_leave_def)

lemma set_leaveAll: "set (leaveAll s ad) = {p \<in> set ad. fst p \<noteq> s}"
  by (auto simp: leaveAll_def)

lemma set_members: "set (members ad r) = {s. (s, r) \<in> set ad}"
  by (force simp: members_def)

lemma detach_fields [simp]:
  "onlineUsers (detach s st) = onlineUsers st" "rooms (detach s st) = rooms st"
  "groupMessages (detach s st) = groupMessages st"
  "privateMessages (detach s st) = privateMessages st"
  by (simp_all add: detach_def)

lemma wf_detach [simp]: "wf_state (detach s st) = wf_state st"
  by (simp add: wf_state_def)

lemma dropped_fields [simp]:
  "onlineUsers (dropped st i) = onlineUsers st" "rooms (dropped st i) = rooms st"
  by (simp_all add: dropped_def split: event.splits)

lemma wf_dropped [simp]: "wf_state (dropped st i) = wf_state st"
  by (simp add: wf_state_def)

lemma resume_fields:
  assumes "groupMessage_resume n saved st = Inr (st', acts)"
  shows "onlineUsers st' = onlineUsers st" "rooms st' = rooms st"
  using assms by (auto simp: groupMessage_resume_def Let_def split: option.splits)

lemma wf_init: "wf_state init"
  by (simp add: wf_state_def init_def lookup_def)

lemma wf_registerUser: "wf_state st \<Longrightarrow> registerUser s n st = Inr (st', acts) \<Longrightarrow> wf_state st'"
  by (auto simp: wf_state_def registerUser_def distinct_update lookup_update split: if_splits)

lemma wf_joinRoom: "wf_state st \<Longrightarrow> joinRoom s r now st = Inr (st', acts) \<Longrightarrow> wf_state st'"
  by (auto simp: wf_state_def joinRoom_def Let_def distinct_update lookup_update set_socket_join
      set_socket_leave split: option.splits if_splits)

lemma wf_leaveRoom: "wf_state st \<Longrightarrow> leaveRoom s now st = Inr (st', acts) \<Longrightarrow> wf_state st'"
  by (auto simp: wf_state_def leaveRoom_def Let_def distinct_update lookup_update
      set_socket_leave split: option.splits if_splits)

lemma wf_groupMessage: "wf_state st \<Longrightarrow> groupMessage s dat st = Inr (st', acts) \<Longrightarrow> wf_state st'"
  by (auto simp: wf_state_def groupMessage_def split: option.splits if_splits)

lemma wf_resume: "wf_state st \<Longrightarrow> groupMessage_resume n saved st = Inr (st', acts) \<Longrightarrow> wf_state st'"
  using resume_fields [of n saved st st' acts] by (auto simp: wf_state_def)

lemma wf_privateMessage: "wf_state st \<Longrightarrow> privateMessage s dat saved st = Inr (st', acts) \<Longrightarrow> wf_state st'"
  by (auto simp: wf_state_def privateMessage_def Let_def split: option.splits if_splits)

lemma wf_typing: "wf_state st \<Longrightarrow> typing s dat st = Inr (st', acts) \<Longrightarrow> wf_state st'"
  by (auto simp: typing_def split: option.splits)

lemma wf_stopTyping: "wf_state st \<Longrightarrow> stopTyping s dat st = Inr (st', acts) \<Longrightarrow> wf_state st'"
  by (auto simp: stopTyping_def split: option.splits)

lemma wf_disconnect:
  "wf_state st \<Longrightarrow>
   disconnect s now (detach s (st\<lparr>rooms := leaveAll s (rooms st)\<rparr>)) = Inr (st', acts) \<Longrightarrow>
   wf_state st'"
  by (auto simp: wf_state_def disconnect_def Let_def distinct_delete lookup_delete set_leaveAll
      split: if_splits)

lemma wf_handle: "wf_state st \<Longrightarrow> handle st i = Inr (st', acts) \<Longrightarrow> wf_state st'"
proof -
  assume a: "wf_state st" "handle st i = Inr (st', acts)"
  obtain s e now saved where i: "i = (s, e, now, saved)" by (cases i) auto
  show ?thesis
  proof (cases e)
    case Connection
    with a i show ?thesis by (auto simp: wf_state_def set_socket_join)
  next
    case (RegisterUser n)
    with a i have "registerUser s n (detach s st) = Inr (st', acts)" by simp
    from wf_registerUser [OF _ this] a(1) show ?thesis by simp
  next
    case (JoinRoom r)
    with a i show ?thesis by (auto dest: wf_joinRoom)
  next
    case LeaveRoom
    with a i show ?thesis by (auto dest: wf_leaveRoom)
  next
    case (GroupMessage d)
    with a i show ?thesis by (auto dest: wf_groupMessage)
  next
    case (PrivateMessage d)
    with a i show ?thesis by (auto dest: wf_privateMessage)
  next
    case (Typing d)
    with a i show ?thesis by (auto dest: wf_typing)
  next
    case (StopTyping d)
    with a i show ?thesis by (auto dest: wf_stopTyping)
  next
    case Disconnect
    with a i show ?thesis by (auto dest: wf_disconnect)
  next
    case (SaveSettled n)
    with a i show ?thesis by (auto split: if_splits dest: wf_resume)
  qed
qed

lemma wf_step: "wf_state st \<Longrightarrow> wf_state (step st i)"
  by (auto simp: step_def split: sum.splits dest: wf_handle)

lemma wf_run: "wf_state st \<Longrightarrow> wf_state (run st ins)"
  by (induction ins arbitrary: st) (auto simp: wf_step)

lemma wf_reachable: "wf_state (run init ins)"
  by (simp add: wf_run wf_init)




subsection \<open>Evaluation on the scenarios\<close>

lemmas handler_defs =
  registerUser_def joinRoom_def leaveRoom_def groupMessage_def privateMessage_def
  typing_def stopTyping_def disconnect_def indicator_def toRecipient_def findRecipient_def
  groupMessage_resume_def captured_def detach_def
  emit_def members_def socket_join_def socket_leave_def leaveAll_def getUsersInRoom_def
  lookup_def truthy_def truthy_opt_def leftNotice_def joinedNotice_def disconnectedNotice_def

lemmas run_defs = step_def dropped_def init_def

lemma run_alice_bob_sports:
  "run init alice_bob_sports =
     \<lparr>onlineUsers = [(''c1'', \<lparr>username = ''alice'', room = Some ''sports''\<rparr>),
                     (''c2'', \<lparr>username = ''bob'', room = Some ''sports''\<rparr>)],
      rooms = [(''c1'', ''c1''), (''c1'', ''sports''), (''c2'', ''c2''), (''c2'', ''sports'')],
      groupMessages = [], privateMessages = [], pending = []\<rparr>"
  by (simp add: alice_bob_sports_def handler_defs run_defs)

lemma run_two_alices:
  "run init two_alices =
     \<lparr>onlineUsers = [(''c1'', \<lparr>username = ''alice'', room = Some ''sports''\<rparr>),
                     (''c2'', \<lparr>username = ''alice'', room = None\<rparr>)],
      rooms = [(''c1'', ''c1''), (''c2'', ''c2''), (''c1'', ''sports'')],
      groupMessages = [], privateMessages = [], pending = []\<rparr>"
  by (simp add: two_alices_def handler_defs run_defs)

subsection \<open>Occupants and recipients\<close>

lemma occupant_is_member:
  "wf_state st \<Longrightarrow> lookup (onlineUsers st) s = Some u \<Longrightarrow> room u = Some r \<Longrightarrow>
   s \<in> set (members (rooms st) r)"
  by (auto simp: wf_state_def set_members)

lemma lookup_in_set: "lookup reg s = Some u \<Longrightarrow> (s, u) \<in> set reg"
  by (simp add: lookup_def map_of_SomeD)

lemma set_lookup: "distinct (map fst reg) \<Longrightarrow> (s, u) \<in> set reg \<Longrightarrow> lookup reg s = Some u"
  by (simp add: lookup_def)

lemma getUsersInRoom_iff:
  "n \<in> set (getUsersInRoom reg r) \<longleftrightarrow> (\<exists>s u. (s, u) \<in> set reg \<and> username u = n \<and> room u = Some r)"
  by (force simp: getUsersInRoom_def)

lemma findRecipient_Some:
  assumes "findRecipient reg to = Some k"
  shows "(\<exists>v. lookup reg k = Some v \<and> to = Some (username v)) \<and>
     (\<exists>i < length reg. fst (reg ! i) = k \<and>
        (\<forall>j < i. \<forall>v. lookup reg (fst (reg ! j)) = Some v \<longrightarrow> Some (username v) \<noteq> to))"
proof -
  let ?P = "\<lambda>k. case lookup reg k of None \<Rightarrow> False | Some u \<Rightarrow> Some (username u) = to"
  from assms have "find ?P (map fst reg) = Some k"
    by (simp add: findRecipient_def)
  then obtain i where i: "i < length (map fst reg)" "?P (map fst reg ! i)"
      "k = map fst reg ! i" "\<forall>j<i. \<not> ?P (map fst reg ! j)"
    unfolding find_Some_iff by blast
  from i(2,3) have a: "\<exists>v. lookup reg k = Some v \<and> to = Some (username v)"
    by (auto split: option.splits)
  have b: "i < length reg" using i(1) by simp
  have c: "fst (reg ! i) = k" using i(1,3) by simp
  have d: "\<forall>j < i. \<forall>v. lookup reg (fst (reg ! j)) = Some v \<longrightarrow> Some (username v) \<noteq> to"
  proof (intro allI impI)
    fix j v assume j: "j < i" and v: "lookup reg (fst (reg ! j)) = Some v"
    from j b have "map fst reg ! j = fst (reg ! j)" by simp
    with i(4) j have "\<not> ?P (fst (reg ! j))" by metis
    with v show "Some (username v) \<noteq> to" by simp
  qed
  from a b c d show ?thesis by blast
qed

lemma findRecipient_None:
  "findRecipient reg to = None \<longleftrightarrow> (\<forall>k v. lookup reg k = Some v \<longrightarrow> Some (username v) \<noteq> to)"
proof
  assume n: "findRecipient reg to = None"
  show "\<forall>k v. lookup reg k = Some v \<longrightarrow> Some (username v) \<noteq> to"
  proof (intro allI impI)
    fix k v assume kv: "lookup reg k = Some v"
    then have "k \<in> set (map fst reg)"
      by (auto simp: lookup_def dest: map_of_SomeD intro: rev_image_eqI)
    with n have "\<not> (case lookup reg k of None \<Rightarrow> False | Some u \<Rightarrow> Some (username u) = to)"
      unfolding findRecipient_def find_None_iff by blast
    with kv show "Some (username v) \<noteq> to" by simp
  qed
next
  assume a: "\<forall>k v. lookup reg k = Some v \<longrightarrow> Some (username v) \<noteq> to"
  show "findRecipient reg to = None"
    unfolding findRecipient_def find_None_iff
    using a by (auto split: option.splits)
qed

lemma leaveAll_idem: "leaveAll s (leaveAll s ad) = leaveAll s ad"
  by (simp add: leaveAll_def)

lemma detach_idem: "pending st' = pending (detach s st0) \<Longrightarrow> detach s st' = st'"
  by (simp add: detach_def map_idI)

lemma disconnect_twice:
  assumes "handle st (s, Disconnect, now, saved) = Inr (st1, acts1)"
  shows "handle st1 (s, Disconnect, now', saved') = Inr (st1, [])"
proof -
  let ?st0 = "st\<lparr>rooms := leaveAll s (rooms st)\<rparr>"
  from assms have st1: "st1 = (detach s ?st0)\<lparr>onlineUsers := AList.delete s (onlineUsers st)\<rparr>"
    by (simp add: disconnect_def)
  then have r: "st1\<lparr>rooms := leaveAll s (rooms st1)\<rparr> = st1"
    by (simp add: leaveAll_idem)
  have "pending st1 = pending (detach s ?st0)"
    using st1 by simp
  then have d: "detach s st1 = st1"
    by (rule detach_idem)
  have l: "lookup (onlineUsers st1) s = None"
    using st1 by (simp add: lookup_delete)
  have "AList.delete s (onlineUsers st1) = onlineUsers st1"
    using st1 by (simp add: delete_idem)
  with r d l show ?thesis
    by (simp add: disconnect_def)
qed

lemma frame_handle:
  "c' \<noteq> c \<Longrightarrow> handle st (c, e, now, saved) = Inr (st', acts) \<Longrightarrow>
   lookup (onlineUsers st') c' = lookup (onlineUsers st) c'"
  by (cases e)
     (auto simp: registerUser_def joinRoom_def leaveRoom_def groupMessage_def
        privateMessage_def typing_def stopTyping_def disconnect_def Let_def
        lookup_update lookup_delete resume_fields split: option.splits if_splits)

subsection \<open>Joining a room while in another one\<close>

text \<open>
  Claim C1 says that the occupant list broadcast to the old room during the implicit leave
  of \<^verbatim>\<open>joinRoom\<close> no longer has the name of the session that leaves. The handler
  computes that list before it writes \<^verbatim>\<open>user.room\<close>: for every session in a room \<open>r1\<close>,
  the second event that \<open>joinRoom\<close> emits is \<^verbatim>\<open>updateUsers\<close> to \<open>r1\<close> with the
  occupants of \<open>r1\<close> in the registry as it was before the call, and the name of the leaving
  session is among them. Afterwards the registry has the session in the new room only.
\<close>

theorem joinRoom_old_room_list_keeps_leaver:
  assumes "lookup (onlineUsers st) s = Some u"
    and "room u = Some r1"
    and "truthy r1"
  shows "\<exists>st' rest.
           joinRoom s r2 now st =
             Inr (st',
                  Emit (IoTo r1) ''roomMessage'' (leftNotice u now)
                    (members (socket_leave s r1 (rooms st)) r1)
                  # Emit (IoTo r1) ''updateUsers''
                      (UpdateUsers (getUsersInRoom (onlineUsers st) r1))
                      (members (socket_leave s r1 (rooms st)) r1)
                  # rest)
           \<and> username u \<in> set (getUsersInRoom (onlineUsers st) r1)
           \<and> lookup (onlineUsers st') s = Some (u\<lparr>room := Some r2\<rparr>)"
proof -
  have "username u \<in> set (getUsersInRoom (onlineUsers st) r1)"
    using assms(1,2) lookup_in_set getUsersInRoom_iff by blast
  then show ?thesis
    using assms by (simp add: joinRoom_def Let_def emit_def lookup_update)
qed

text \<open>
  Alice and Bob are in sports and Alice joins devops: Bob is sent the list alice, bob.
\<close>

theorem joinRoom_old_room_list_keeps_leaver_witness:
  "lookup (onlineUsers (run init alice_bob_sports)) ''c1''
     = Some \<lparr>username = ''alice'', room = Some ''sports''\<rparr>
   \<and> truthy ''sports''
   \<and> (\<exists>st'. joinRoom ''c1'' ''devops'' 4 (run init alice_bob_sports) =
         Inr (st',
              [Emit (IoTo ''sports'') ''roomMessage''
                 (RoomMessage ''System'' (Some ''alice has left the room'') 4) [''c2''],
               Emit (IoTo ''sports'') ''updateUsers'' (UpdateUsers [''alice'', ''bob'']) [''c2''],
               Emit (IoTo ''devops'') ''roomMessage''
                 (RoomMessage ''System'' (Some ''alice has joined the room'') 4) [''c1''],
               Emit (IoTo ''devops'') ''updateUsers'' (UpdateUsers [''alice'']) [''c1'']]))"
proof -
  have h: "lookup (onlineUsers (run init alice_bob_sports)) ''c1''
     = Some \<lparr>username = ''alice'', room = Some ''sports''\<rparr>"
    by (simp add: run_alice_bob_sports lookup_def)
  have t: "truthy ''sports''" by (simp add: truthy_def)
  from joinRoom_old_room_list_keeps_leaver [OF h _ t, of "''devops''" 4] h t
  show ?thesis
    by (simp add: run_alice_bob_sports handler_defs)
qed

subsection \<open>Occupants of a room\<close>

text \<open>
  Two connections register the same name and only the first joins sports: the name of the
  second is among the occupants of sports although its room is not sports.
\<close>

theorem occupants_iff_counterexample:
  "lookup (onlineUsers (run init two_alices)) ''c2'' = Some \<lparr>username = ''alice'', room = None\<rparr>
   \<and> ''alice'' \<in> set (getUsersInRoom (onlineUsers (run init two_alices)) ''sports'')
   \<and> room \<lparr>username = ''alice'', room = None\<rparr> \<noteq> Some ''sports''"
  by (simp add: run_two_alices lookup_def getUsersInRoom_def)

text \<open>
  Claim C2, amended. In every state reached from \<open>init\<close>, for every room \<open>r\<close> and
  session \<open>s\<close>: if the room of \<open>s\<close> is \<open>r\<close> then the occupants of \<open>r\<close> contain the name
  of \<open>s\<close>; if the occupants of \<open>r\<close> contain the name of \<open>s\<close> then some session with that
  name is in \<open>r\<close>, and it is \<open>s\<close> itself when no other session has the name; and the
  occupants of a room that no session references are the empty list.
\<close>

theorem occupants_characterisation:
  assumes "st = run init ins"
  shows "(\<forall>s u. lookup (onlineUsers st) s = Some u \<longrightarrow>
            (room u = Some r \<longrightarrow> username u \<in> set (getUsersInRoom (onlineUsers st) r))
          \<and> (username u \<in> set (getUsersInRoom (onlineUsers st) r) \<longrightarrow>
               (\<exists>s' u'. lookup (onlineUsers st) s' = Some u' \<and> username u' = username u
                         \<and> room u' = Some r))
          \<and> ((\<forall>s' u'. lookup (onlineUsers st) s' = Some u' \<and> username u' = username u
                  \<longrightarrow> s' = s) \<longrightarrow>
               (username u \<in> set (getUsersInRoom (onlineUsers st) r) \<longleftrightarrow> room u = Some r)))
       \<and> ((\<forall>s u. lookup (onlineUsers st) s = Some u \<longrightarrow> room u \<noteq> Some r) \<longrightarrow>
             getUsersInRoom (onlineUsers st) r = [])"
proof -
  have d: "distinct (map fst (onlineUsers st))"
    using assms wf_reachable by (simp add: wf_state_def)
  have mem: "\<And>n. n \<in> set (getUsersInRoom (onlineUsers st) r) \<longleftrightarrow>
      (\<exists>s u. lookup (onlineUsers st) s = Some u \<and> username u = n \<and> room u = Some r)"
    unfolding getUsersInRoom_iff using d lookup_in_set set_lookup by blast
  have a: "\<forall>s u. lookup (onlineUsers st) s = Some u \<longrightarrow>
            (room u = Some r \<longrightarrow> username u \<in> set (getUsersInRoom (onlineUsers st) r))
          \<and> (username u \<in> set (getUsersInRoom (onlineUsers st) r) \<longrightarrow>
               (\<exists>s' u'. lookup (onlineUsers st) s' = Some u' \<and> username u' = username u
                         \<and> room u' = Some r))
          \<and> ((\<forall>s' u'. lookup (onlineUsers st) s' = Some u' \<and> username u' = username u
                  \<longrightarrow> s' = s) \<longrightarrow>
               (username u \<in> set (getUsersInRoom (onlineUsers st) r) \<longleftrightarrow> room u = Some r))"
  proof (intro allI impI conjI)
    fix s u assume "lookup (onlineUsers st) s = Some u" "room u = Some r"
    then show "username u \<in> set (getUsersInRoom (onlineUsers st) r)"
      using mem by blast
  next
    fix s :: sid and u :: user
    assume "username u \<in> set (getUsersInRoom (onlineUsers st) r)"
    then show "\<exists>s' u'. lookup (onlineUsers st) s' = Some u' \<and> username u' = username u
                         \<and> room u' = Some r"
      using mem by blast
  next
    fix s u
    assume su: "lookup (onlineUsers st) s = Some u"
      and uniq: "\<forall>s' u'. lookup (onlineUsers st) s' = Some u' \<and> username u' = username u
                  \<longrightarrow> s' = s"
    show "username u \<in> set (getUsersInRoom (onlineUsers st) r) \<longleftrightarrow> room u = Some r"
    proof
      assume "username u \<in> set (getUsersInRoom (onlineUsers st) r)"
      then obtain s' u' where x: "lookup (onlineUsers st) s' = Some u'"
          "username u' = username u" "room u' = Some r"
        using mem by blast
      with uniq have "s' = s" by blast
      with x su show "room u = Some r" by simp
    next
      assume "room u = Some r"
      with su show "username u \<in> set (getUsersInRoom (onlineUsers st) r)"
        using mem by blast
    qed
  qed
  have b: "(\<forall>s u. lookup (onlineUsers st) s = Some u \<longrightarrow> room u \<noteq> Some r) \<longrightarrow>
             getUsersInRoom (onlineUsers st) r = []"
  proof
    assume n: "\<forall>s u. lookup (onlineUsers st) s = Some u \<longrightarrow> room u \<noteq> Some r"
    have "\<And>x. x \<notin> set (getUsersInRoom (onlineUsers st) r)"
      using mem n by blast
    then show "getUsersInRoom (onlineUsers st) r = []"
      by (cases "getUsersInRoom (onlineUsers st) r") auto
  qed
  from a b show ?thesis by blast
qed

text \<open>
  With Alice and Bob in sports, alice is an occupant of sports and devops has none.
\<close>

theorem occupants_characterisation_witness:
  "''alice'' \<in> set (getUsersInRoom (onlineUsers (run init alice_bob_sports)) ''sports'')
   \<and> getUsersInRoom (onlineUsers (run init alice_bob_sports)) ''devops'' = []"
proof -
  let ?st = "run init alice_bob_sports"
  have h: "lookup (onlineUsers ?st) ''c1'' = Some \<lparr>username = ''alice'', room = Some ''sports''\<rparr>"
    by (simp add: run_alice_bob_sports lookup_def)
  have n: "\<forall>s u. lookup (onlineUsers ?st) s = Some u \<longrightarrow> room u \<noteq> Some ''devops''"
    by (auto simp: run_alice_bob_sports lookup_def split: if_splits)
  from occupants_characterisation [OF refl, of alice_bob_sports "''sports''"] h
  have 1: "''alice'' \<in> set (getUsersInRoom (onlineUsers ?st) ''sports'')"
    by fastforce
  from occupants_characterisation [OF refl, of alice_bob_sports "''devops''"] n
  have 2: "getUsersInRoom (onlineUsers ?st) ''devops'' = []"
    by blast
  from 1 2 show ?thesis by blast
qed

subsection \<open>Group messages\<close>

lemma run_append: "run st (xs @ ys) = run (run st xs) ys"
  by (induction xs arbitrary: st) auto

lemma run_alice_switches:
  "run init alice_switches =
     \<lparr>onlineUsers = [(''c1'', \<lparr>username = ''alice'', room = Some ''devops''\<rparr>),
                     (''c2'', \<lparr>username = ''bob'', room = Some ''sports''\<rparr>)],
      rooms = [(''c1'', ''c1''), (''c2'', ''c2''), (''c2'', ''sports''), (''c1'', ''devops'')],
      groupMessages = [], privateMessages = [],
      pending = [\<lparr>ps_socket = ''c1'', ps_user = \<lparr>username = ''alice'', room = Some ''sports''\<rparr>,
                  ps_detached = False, ps_from_user = ''alice'', ps_room = ''sports'',
                  ps_data = \<lparr>to_user = None, message = Some ''hi''\<rparr>\<rparr>]\<rparr>"
  by (simp add: alice_switches_def run_append run_alice_bob_sports handler_defs step_def)

text \<open>
  When nothing happens between the call and the moment the save settles, the document is
  stored first and one \<^verbatim>\<open>roomMessage\<close> with the time stamp of the store is then emitted
  to the room of the sender, where the sender and every other session of that room get it;
  a rejected save makes the handler throw with nothing stored and nothing emitted.
\<close>

lemma groupMessage_uninterrupted:
  assumes "st = run init ins"
    and "lookup (onlineUsers st) s = Some u"
    and "room u = Some r"
    and "truthy r"
  shows "\<exists>st1. groupMessage s (Some d) st = Inr (st1, [])
           \<and> groupMessage_resume (length (pending st)) (Some t) st1 =
               Inr (st\<lparr>groupMessages := groupMessages st @
                           [\<lparr>gm_from_user = username u, gm_room = r,
                             gm_message = message d, gm_date_sent = t\<rparr>]\<rparr>,
                    [SaveGroup \<lparr>gm_from_user = username u, gm_room = r,
                                gm_message = message d, gm_date_sent = t\<rparr>,
                     Emit (IoTo r) ''roomMessage'' (RoomMessage (username u) (message d) t)
                       (members (rooms st) r)])
           \<and> groupMessage_resume (length (pending st)) None st1 = Inl StoreFailure"
    and "\<forall>s' u'. lookup (onlineUsers st) s' = Some u' \<and> room u' = Some r
               \<longrightarrow> s' \<in> set (members (rooms st) r)"
proof -
  have wf: "wf_state st" using assms(1) by (simp add: wf_reachable)
  show "\<exists>st1. groupMessage s (Some d) st = Inr (st1, [])
           \<and> groupMessage_resume (length (pending st)) (Some t) st1 =
               Inr (st\<lparr>groupMessages := groupMessages st @
                           [\<lparr>gm_from_user = username u, gm_room = r,
                             gm_message = message d, gm_date_sent = t\<rparr>]\<rparr>,
                    [SaveGroup \<lparr>gm_from_user = username u, gm_room = r,
                                gm_message = message d, gm_date_sent = t\<rparr>,
                     Emit (IoTo r) ''roomMessage'' (RoomMessage (username u) (message d) t)
                       (members (rooms st) r)])
           \<and> groupMessage_resume (length (pending st)) None st1 = Inl StoreFailure"
    using assms(2-4)
    by (simp add: groupMessage_def groupMessage_resume_def captured_def emit_def Let_def)
  show "\<forall>s' u'. lookup (onlineUsers st) s' = Some u' \<and> room u' = Some r
               \<longrightarrow> s' \<in> set (members (rooms st) r)"
    using wf by (blast intro: occupant_is_member)
qed

text \<open>
  Claim C3 says that the stored record is broadcast to every occupant of the room,
  including the sender. The handler takes the room of the record from \<^verbatim>\<open>user.room\<close>
  before \<^verbatim>\<open>await msg.save()\<close> and the room of the broadcast from \<^verbatim>\<open>user.room\<close> after it.
  For every session in a room \<open>r1\<close>: when the same socket joins \<open>r2\<close> while the save is
  pending, the record stored for \<open>r1\<close> is emitted to \<open>r2\<close>; when it leaves the room
  instead, the record is emitted to \<^verbatim>\<open>io.to(null)\<close> and reaches nobody.
\<close>

theorem groupMessage_room_read_after_save:
  assumes "lookup (onlineUsers st) s = Some u"
    and "room u = Some r1"
    and "truthy r1"
  shows "\<exists>st1 st2 acts st3 st2' acts' st3'.
           groupMessage s (Some d) st = Inr (st1, [])
         \<and> joinRoom s r2 now st1 = Inr (st2, acts)
         \<and> groupMessage_resume (length (pending st)) (Some t) st2 =
             Inr (st3,
                  [SaveGroup \<lparr>gm_from_user = username u, gm_room = r1,
                              gm_message = message d, gm_date_sent = t\<rparr>,
                   Emit (IoTo r2) ''roomMessage'' (RoomMessage (username u) (message d) t)
                     (members (socket_join s r2 (socket_leave s r1 (rooms st))) r2)])
         \<and> leaveRoom s now st1 = Inr (st2', acts')
         \<and> groupMessage_resume (length (pending st)) (Some t) st2' =
             Inr (st3',
                  [SaveGroup \<lparr>gm_from_user = username u, gm_room = r1,
                              gm_message = message d, gm_date_sent = t\<rparr>,
                   Emit IoToNull ''roomMessage'' (RoomMessage (username u) (message d) t) []])"
  using assms
  by (simp add: groupMessage_def joinRoom_def leaveRoom_def groupMessage_resume_def
      captured_def emit_def Let_def lookup_update)

text \<open>
  Alice says hi in sports and joins devops before the save settles: the document says
  sports, the message goes to devops, where Alice is alone, and Bob in sports gets nothing.
\<close>

theorem groupMessage_room_read_after_save_witness:
  "lookup (onlineUsers (run init alice_bob_sports)) ''c1''
     = Some \<lparr>username = ''alice'', room = Some ''sports''\<rparr>
   \<and> truthy ''sports''
   \<and> lookup (onlineUsers (run init alice_switches)) ''c2''
     = Some \<lparr>username = ''bob'', room = Some ''sports''\<rparr>
   \<and> (\<exists>st3. handle (run init alice_switches) (''c1'', SaveSettled 0, 6, Some 7) =
         Inr (st3,
              [SaveGroup \<lparr>gm_from_user = ''alice'', gm_room = ''sports'',
                          gm_message = Some ''hi'', gm_date_sent = 7\<rparr>,
               Emit (IoTo ''devops'') ''roomMessage'' (RoomMessage ''alice'' (Some ''hi'') 7)
                 [''c1'']]))"
proof -
  have h: "lookup (onlineUsers (run init alice_bob_sports)) ''c1''
     = Some \<lparr>username = ''alice'', room = Some ''sports''\<rparr>"
    by (simp add: run_alice_bob_sports lookup_def)
  have t: "truthy ''sports''" by (simp add: truthy_def)
  have b: "lookup (onlineUsers (run init alice_switches)) ''c2''
     = Some \<lparr>username = ''bob'', room = Some ''sports''\<rparr>"
    by (simp add: run_alice_switches lookup_def)
  have e: "\<exists>st3. handle (run init alice_switches) (''c1'', SaveSettled 0, 6, Some 7) =
         Inr (st3,
              [SaveGroup \<lparr>gm_from_user = ''alice'', gm_room = ''sports'',
                          gm_message = Some ''hi'', gm_date_sent = 7\<rparr>,
               Emit (IoTo ''devops'') ''roomMessage'' (RoomMessage ''alice'' (Some ''hi'') 7)
                 [''c1'']])"
    by (simp add: run_alice_switches handler_defs Let_def)
  from groupMessage_room_read_after_save
         [OF h _ t, of "\<lparr>to_user = None, message = Some ''hi''\<rparr>" "''devops''" 5 7]
       h t b e
  show ?thesis by simp
qed

subsection \<open>The error policy\<close>

text \<open>
  Claim C4 says that no handler raises, in particular not \<^verbatim>\<open>typing\<close> with an absent
  payload. For a registered session \<^verbatim>\<open>typing\<close> reads \<^verbatim>\<open>data.to_user\<close> of the absent
  payload and throws, while \<^verbatim>\<open>stopTyping\<close>, which tests \<^verbatim>\<open>data && data.to_user\<close>,
  returns normally and leaves the state as it is.
\<close>

theorem typing_absent_payload_throws:
  assumes "lookup (onlineUsers st) s = Some u"
  shows "typing s None st = Inl TypeError
         \<and> (\<exists>acts. stopTyping s None st = Inr (st, acts))"
  using assms by (simp add: typing_def stopTyping_def)

text \<open>
  Alice, in sports with Bob, sends both events without a payload.
\<close>

theorem typing_absent_payload_throws_witness:
  "lookup (onlineUsers (run init alice_bob_sports)) ''c1''
     = Some \<lparr>username = ''alice'', room = Some ''sports''\<rparr>
   \<and> handle (run init alice_bob_sports) (''c1'', Typing None, 4, None) = Inl TypeError
   \<and> handle (run init alice_bob_sports) (''c1'', StopTyping None, 4, None) =
       Inr (run init alice_bob_sports,
            [Emit (SocketTo ''c1'' ''sports'') ''stopTyping'' (FromUser ''alice'') [''c2'']])"
proof -
  have h: "lookup (onlineUsers (run init alice_bob_sports)) ''c1''
     = Some \<lparr>username = ''alice'', room = Some ''sports''\<rparr>"
    by (simp add: run_alice_bob_sports lookup_def)
  have s: "handle (run init alice_bob_sports) (''c1'', StopTyping None, 4, None) =
       Inr (run init alice_bob_sports,
            [Emit (SocketTo ''c1'' ''sports'') ''stopTyping'' (FromUser ''alice'') [''c2'']])"
    by (simp add: run_alice_bob_sports handler_defs)
  from typing_absent_payload_throws [OF h] h s show ?thesis by simp
qed

text \<open>
  The part of the error policy that holds: for an unknown session every handler that looks
  the session up returns at once, and so do \<^verbatim>\<open>leaveRoom\<close> and \<^verbatim>\<open>groupMessage\<close> for a
  session without a room.
\<close>

lemma unknown_session_noop:
  assumes "lookup (onlineUsers st) s = None"
  shows "joinRoom s r now st = Inr (st, [])" "leaveRoom s now st = Inr (st, [])"
    "groupMessage s dat st = Inr (st, [])" "privateMessage s dat saved st = Inr (st, [])"
    "typing s dat st = Inr (st, [])" "stopTyping s dat st = Inr (st, [])"
    "disconnect s now st = Inr (st, [])"
proof -
  have "s \<notin> fst ` set (onlineUsers st)"
    using assms by (simp add: lookup_def map_of_eq_None_iff)
  then have d: "AList.delete s (onlineUsers st) = onlineUsers st"
    by simp
  show "joinRoom s r now st = Inr (st, [])" "leaveRoom s now st = Inr (st, [])"
    "groupMessage s dat st = Inr (st, [])" "privateMessage s dat saved st = Inr (st, [])"
    "typing s dat st = Inr (st, [])" "stopTyping s dat st = Inr (st, [])"
    "disconnect s now st = Inr (st, [])"
    using assms d
    by (simp_all add: joinRoom_def leaveRoom_def groupMessage_def privateMessage_def
        typing_def stopTyping_def disconnect_def)
qed

lemma no_room_noop:
  assumes "lookup (onlineUsers st) s = Some u" "\<not> truthy_opt (room u)"
  shows "leaveRoom s now st = Inr (st, [])" "groupMessage s dat st = Inr (st, [])"
  using assms
  by (cases "room u"; simp add: leaveRoom_def groupMessage_def truthy_opt_def)+

subsection \<open>Private messages\<close>

text \<open>
  Claim C5. A private message of a registered session whose save succeeds with time stamp
  \<open>t\<close> stores the document whether or not a recipient is found, then emits it to the room
  of the recipient's socket id if \<open>findRecipient\<close> finds one, and last emits it to the
  sender's own socket, each time with \<open>t\<close>. A recipient that is found is a session with the
  name \<^verbatim>\<open>to_user\<close>, the first one in registry order; none is found exactly when no
  session has that name.
\<close>

theorem privateMessage_persist_deliver_echo:
  assumes "lookup (onlineUsers st) s = Some u"
  shows "privateMessage s (Some d) (Some t) st =
           Inr (st\<lparr>privateMessages := privateMessages st @
                       [\<lparr>pm_from_user = username u, pm_to_user = to_user d,
                         pm_message = message d, pm_date_sent = t\<rparr>]\<rparr>,
                SavePrivate \<lparr>pm_from_user = username u, pm_to_user = to_user d,
                             pm_message = message d, pm_date_sent = t\<rparr>
                # (case findRecipient (onlineUsers st) (to_user d) of
                     None \<Rightarrow> []
                   | Some k \<Rightarrow>
                       if truthy k
                       then [Emit (IoTo k) ''privateMessage''
                               (PrivateMsg (username u) (to_user d) (message d) t)
                               (members (rooms st) k)]
                       else [])
                @ [Emit (SocketEmit s) ''privateMessage''
                     (PrivateMsg (username u) (to_user d) (message d) t) [s]])
         \<and> (\<forall>k. findRecipient (onlineUsers st) (to_user d) = Some k \<longrightarrow>
               (\<exists>v. lookup (onlineUsers st) k = Some v \<and> to_user d = Some (username v)) \<and>
               (\<exists>i < length (onlineUsers st). fst (onlineUsers st ! i) = k \<and>
                  (\<forall>j < i. \<forall>v. lookup (onlineUsers st) (fst (onlineUsers st ! j)) = Some v
                       \<longrightarrow> Some (username v) \<noteq> to_user d)))
         \<and> (findRecipient (onlineUsers st) (to_user d) = None \<longleftrightarrow>
              (\<forall>k v. lookup (onlineUsers st) k = Some v \<longrightarrow> Some (username v) \<noteq> to_user d))"
proof -
  have a: "privateMessage s (Some d) (Some t) st =
           Inr (st\<lparr>privateMessages := privateMessages st @
                       [\<lparr>pm_from_user = username u, pm_to_user = to_user d,
                         pm_message = message d, pm_date_sent = t\<rparr>]\<rparr>,
                SavePrivate \<lparr>pm_from_user = username u, pm_to_user = to_user d,
                             pm_message = message d, pm_date_sent = t\<rparr>
                # (case findRecipient (onlineUsers st) (to_user d) of
                     None \<Rightarrow> []
                   | Some k \<Rightarrow>
                       if truthy k
                       then [Emit (IoTo k) ''privateMessage''
                               (PrivateMsg (username u) (to_user d) (message d) t)
                               (members (rooms st) k)]
                       else [])
                @ [Emit (SocketEmit s) ''privateMessage''
                     (PrivateMsg (username u) (to_user d) (message d) t) [s]])"
    using assms
    by (simp add: privateMessage_def toRecipient_def emit_def Let_def split: option.splits)
  have b: "\<forall>k. findRecipient (onlineUsers st) (to_user d) = Some k \<longrightarrow>
               (\<exists>v. lookup (onlineUsers st) k = Some v \<and> to_user d = Some (username v)) \<and>
               (\<exists>i < length (onlineUsers st). fst (onlineUsers st ! i) = k \<and>
                  (\<forall>j < i. \<forall>v. lookup (onlineUsers st) (fst (onlineUsers st ! j)) = Some v
                       \<longrightarrow> Some (username v) \<noteq> to_user d))"
    using findRecipient_Some by blast
  have c: "findRecipient (onlineUsers st) (to_user d) = None \<longleftrightarrow>
              (\<forall>k v. lookup (onlineUsers st) k = Some v \<longrightarrow> Some (username v) \<noteq> to_user d)"
    by (rule findRecipient_None)
  from a b c show ?thesis by (intro conjI)
qed

text \<open>
  The second Alice writes to alice, which is the first Alice, and to bob, who is not connected.
\<close>

theorem privateMessage_persist_deliver_echo_witness:
  "lookup (onlineUsers (run init two_alices)) ''c2'' = Some \<lparr>username = ''alice'', room = None\<rparr>
   \<and> privateMessage ''c2'' (Some \<lparr>to_user = Some ''alice'', message = Some ''hey''\<rparr>) (Some 9)
        (run init two_alices) =
       Inr ((run init two_alices)
              \<lparr>privateMessages := [\<lparr>pm_from_user = ''alice'', pm_to_user = Some ''alice'',
                                    pm_message = Some ''hey'', pm_date_sent = 9\<rparr>]\<rparr>,
            [SavePrivate \<lparr>pm_from_user = ''alice'', pm_to_user = Some ''alice'',
                          pm_message = Some ''hey'', pm_date_sent = 9\<rparr>,
             Emit (IoTo ''c1'') ''privateMessage''
               (PrivateMsg ''alice'' (Some ''alice'') (Some ''hey'') 9) [''c1''],
             Emit (SocketEmit ''c2'') ''privateMessage''
               (PrivateMsg ''alice'' (Some ''alice'') (Some ''hey'') 9) [''c2'']])
   \<and> privateMessage ''c2'' (Some \<lparr>to_user = Some ''bob'', message = Some ''hey''\<rparr>) (Some 9)
        (run init two_alices) =
       Inr ((run init two_alices)
              \<lparr>privateMessages := [\<lparr>pm_from_user = ''alice'', pm_to_user = Some ''bob'',
                                    pm_message = Some ''hey'', pm_date_sent = 9\<rparr>]\<rparr>,
            [SavePrivate \<lparr>pm_from_user = ''alice'', pm_to_user = Some ''bob'',
                          pm_message = Some ''hey'', pm_date_sent = 9\<rparr>,
             Emit (SocketEmit ''c2'') ''privateMessage''
               (PrivateMsg ''alice'' (Some ''bob'') (Some ''hey'') 9) [''c2'']])"
proof -
  let ?st = "run init two_alices"
  have h: "lookup (onlineUsers ?st) ''c2'' = Some \<lparr>username = ''alice'', room = None\<rparr>"
    by (simp add: run_two_alices lookup_def)
  have f1: "findRecipient (onlineUsers ?st) (Some ''alice'') = Some ''c1''"
    by (simp add: run_two_alices findRecipient_def lookup_def)
  have f2: "findRecipient (onlineUsers ?st) (Some ''bob'') = None"
    by (simp add: run_two_alices findRecipient_def lookup_def)
  have m: "members (rooms ?st) ''c1'' = [''c1'']"
    by (simp add: run_two_alices members_def)
  have p: "privateMessages ?st = []"
    by (simp add: run_two_alices)
  have t: "truthy ''c1''" by (simp add: truthy_def)
  have 1: "privateMessage ''c2'' (Some \<lparr>to_user = Some ''alice'', message = Some ''hey''\<rparr>)
             (Some 9) ?st =
       Inr (?st\<lparr>privateMessages := [\<lparr>pm_from_user = ''alice'', pm_to_user = Some ''alice'',
                                    pm_message = Some ''hey'', pm_date_sent = 9\<rparr>]\<rparr>,
            [SavePrivate \<lparr>pm_from_user = ''alice'', pm_to_user = Some ''alice'',
                          pm_message = Some ''hey'', pm_date_sent = 9\<rparr>,
             Emit (IoTo ''c1'') ''privateMessage''
               (PrivateMsg ''alice'' (Some ''alice'') (Some ''hey'') 9) [''c1''],
             Emit (SocketEmit ''c2'') ''privateMessage''
               (PrivateMsg ''alice'' (Some ''alice'') (Some ''hey'') 9) [''c2'']])"
    using privateMessage_persist_deliver_echo
            [OF h, of "\<lparr>to_user = Some ''alice'', message = Some ''hey''\<rparr>" 9] f1 m p t
    by simp
  have 2: "privateMessage ''c2'' (Some \<lparr>to_user = Some ''bob'', message = Some ''hey''\<rparr>)
             (Some 9) ?st =
       Inr (?st\<lparr>privateMessages := [\<lparr>pm_from_user = ''alice'', pm_to_user = Some ''bob'',
                                    pm_message = Some ''hey'', pm_date_sent = 9\<rparr>]\<rparr>,
            [SavePrivate \<lparr>pm_from_user = ''alice'', pm_to_user = Some ''bob'',
                          pm_message = Some ''hey'', pm_date_sent = 9\<rparr>,
             Emit (SocketEmit ''c2'') ''privateMessage''
               (PrivateMsg ''alice'' (Some ''bob'') (Some ''hey'') 9) [''c2'']])"
    using privateMessage_persist_deliver_echo
            [OF h, of "\<lparr>to_user = Some ''bob'', message = Some ''hey''\<rparr>" 9] f2 p
    by simp
  from h 1 2 show ?thesis by (intro conjI)
qed

subsection \<open>Disconnecting twice\<close>

text \<open>
  Claim C6. A \<^verbatim>\<open>disconnect\<close> event always succeeds and removes the registry entry. It emits
  the departure notice and the user list, one of each, exactly when the session existed
  and had a room, and nothing otherwise. A second \<^verbatim>\<open>disconnect\<close> of the same connection
  emits nothing and leaves the state as it is.
\<close>

theorem disconnect_idempotent:
  "\<exists>st1 acts1.
     handle st (s, Disconnect, now, saved) = Inr (st1, acts1)
     \<and> lookup (onlineUsers st1) s = None
     \<and> handle st1 (s, Disconnect, now', saved') = Inr (st1, [])
     \<and> acts1 =
         (case lookup (onlineUsers st) s of
            None \<Rightarrow> []
          | Some u \<Rightarrow>
              (case room u of
                 None \<Rightarrow> []
               | Some r \<Rightarrow>
                   if truthy r
                   then [Emit (IoTo r) ''roomMessage'' (disconnectedNotice u now)
                           (members (leaveAll s (rooms st)) r),
                         Emit (IoTo r) ''updateUsers''
                           (UpdateUsers (getUsersInRoom (onlineUsers st) r))
                           (members (leaveAll s (rooms st)) r)]
                   else []))"
proof -
  obtain st1 acts1 where h: "handle st (s, Disconnect, now, saved) = Inr (st1, acts1)"
    by (simp add: disconnect_def)
  then have a: "lookup (onlineUsers st1) s = None"
    by (auto simp: disconnect_def lookup_delete)
  from h have b: "acts1 =
         (case lookup (onlineUsers st) s of
            None \<Rightarrow> []
          | Some u \<Rightarrow>
              (case room u of
                 None \<Rightarrow> []
               | Some r \<Rightarrow>
                   if truthy r
                   then [Emit (IoTo r) ''roomMessage'' (disconnectedNotice u now)
                           (members (leaveAll s (rooms st)) r),
                         Emit (IoTo r) ''updateUsers''
                           (UpdateUsers (getUsersInRoom (onlineUsers st) r))
                           (members (leaveAll s (rooms st)) r)]
                   else []))"
    by (auto simp: disconnect_def emit_def split: option.splits)
  from h a b disconnect_twice [OF h] show ?thesis by blast
qed

text \<open>
  Bob disconnects twice from the room he shares with Alice.
\<close>

theorem disconnect_idempotent_witness:
  "\<exists>st1. handle (run init alice_bob_sports) (''c2'', Disconnect, 5, None) =
           Inr (st1,
                [Emit (IoTo ''sports'') ''roomMessage''
                   (RoomMessage ''System'' (Some ''bob has disconnected'') 5) [''c1''],
                 Emit (IoTo ''sports'') ''updateUsers'' (UpdateUsers [''alice'', ''bob''])
                   [''c1'']])
         \<and> lookup (onlineUsers st1) ''c2'' = None
         \<and> handle st1 (''c2'', Disconnect, 6, None) = Inr (st1, [])"
proof -
  have a: "lookup (onlineUsers (run init alice_bob_sports)) ''c2''
             = Some \<lparr>username = ''bob'', room = Some ''sports''\<rparr>"
    by (simp add: run_alice_bob_sports lookup_def)
  have b: "members (leaveAll ''c2'' (rooms (run init alice_bob_sports))) ''sports'' = [''c1'']"
    by (simp add: run_alice_bob_sports members_def leaveAll_def)
  have c: "getUsersInRoom (onlineUsers (run init alice_bob_sports)) ''sports''
             = [''alice'', ''bob'']"
    by (simp add: run_alice_bob_sports getUsersInRoom_def)
  have t: "truthy ''sports''" by (simp add: truthy_def)
  from disconnect_idempotent [of "run init alice_bob_sports" "''c2''" 5 None 6 None]
  obtain st1 acts1 where
    1: "handle (run init alice_bob_sports) (''c2'', Disconnect, 5, None) = Inr (st1, acts1)"
    and 2: "lookup (onlineUsers st1) ''c2'' = None"
    and 3: "handle st1 (''c2'', Disconnect, 6, None) = Inr (st1, [])"
    and 4: "acts1 =
         (case lookup (onlineUsers (run init alice_bob_sports)) ''c2'' of
            None \<Rightarrow> []
          | Some u \<Rightarrow>
              (case room u of
                 None \<Rightarrow> []
               | Some r \<Rightarrow>
                   if truthy r
                   then [Emit (IoTo r) ''roomMessage'' (disconnectedNotice u 5)
                           (members (leaveAll ''c2'' (rooms (run init alice_bob_sports))) r),
                         Emit (IoTo r) ''updateUsers''
                           (UpdateUsers (getUsersInRoom (onlineUsers (run init alice_bob_sports)) r))
                           (members (leaveAll ''c2'' (rooms (run init alice_bob_sports))) r)]
                   else []))"
    by blast
  from 4 a b c t have "acts1 =
       [Emit (IoTo ''sports'') ''roomMessage''
          (RoomMessage ''System'' (Some ''bob has disconnected'') 5) [''c1''],
        Emit (IoTo ''sports'') ''updateUsers'' (UpdateUsers [''alice'', ''bob'']) [''c1'']]"
    by (simp add: disconnectedNotice_def)
  with 1 2 3 show ?thesis by blast
qed

subsection \<open>Typing indicators\<close>

text \<open>
  Alice names herself as \<^verbatim>\<open>to_user\<close>: the notice is delivered to her own socket.
\<close>

theorem typing_direct_mode_counterexample:
  "lookup (onlineUsers (run init alice_bob_sports)) ''c1''
     = Some \<lparr>username = ''alice'', room = Some ''sports''\<rparr>
   \<and> typing ''c1'' (Some \<lparr>to_user = Some ''alice'', message = None\<rparr>) (run init alice_bob_sports)
     = Inr (run init alice_bob_sports,
            [Emit (IoTo ''c1'') ''typing'' (FromUser ''alice'') [''c1'']])"
  by (simp add: run_alice_bob_sports handler_defs)

lemma indicator_room_mode:
  assumes "wf_state st" "lookup (onlineUsers st) s = Some u"
    and "\<not> truthy_opt to" "room u = Some r" "truthy r"
  shows "indicator tag s u to st =
           [Emit (SocketTo s r) tag (FromUser (username u))
              (filter (\<lambda>x. x \<noteq> s) (members (rooms st) r))]"
    and "s \<notin> set (filter (\<lambda>x. x \<noteq> s) (members (rooms st) r))"
    and "\<forall>s' u'. s' \<noteq> s \<and> lookup (onlineUsers st) s' = Some u' \<and> room u' = Some r
           \<longrightarrow> s' \<in> set (filter (\<lambda>x. x \<noteq> s) (members (rooms st) r))"
proof -
  show "indicator tag s u to st =
           [Emit (SocketTo s r) tag (FromUser (username u))
              (filter (\<lambda>x. x \<noteq> s) (members (rooms st) r))]"
    using assms(3-5) by (simp add: indicator_def emit_def)
  show "s \<notin> set (filter (\<lambda>x. x \<noteq> s) (members (rooms st) r))"
    by simp
  show "\<forall>s' u'. s' \<noteq> s \<and> lookup (onlineUsers st) s' = Some u' \<and> room u' = Some r
           \<longrightarrow> s' \<in> set (filter (\<lambda>x. x \<noteq> s) (members (rooms st) r))"
    using assms(1) by (auto dest: occupant_is_member)
qed

lemma indicator_direct_mode:
  assumes "truthy_opt to"
  shows "indicator tag s u to st =
           (case findRecipient (onlineUsers st) to of
              None \<Rightarrow> []
            | Some k \<Rightarrow>
                if truthy k
                then [Emit (IoTo k) tag (FromUser (username u)) (members (rooms st) k)]
                else [])"
  using assms by (simp add: indicator_def toRecipient_def emit_def split: option.splits)

lemma indicator_no_target:
  assumes "\<not> truthy_opt to" "\<not> truthy_opt (room u)"
  shows "indicator tag s u to st = []"
  using assms by (auto simp: indicator_def truthy_opt_def split: option.splits)

text \<open>
  The room named by a socket id, in runs in which no event asks to join it.
\<close>

lemma distinct_socket_join: "distinct ad \<Longrightarrow> distinct (socket_join s r ad)"
  by (simp add: socket_join_def)

lemma distinct_socket_leave: "distinct ad \<Longrightarrow> distinct (socket_leave s r ad)"
  by (simp add: socket_leave_def)

lemma distinct_leaveAll: "distinct ad \<Longrightarrow> distinct (leaveAll s ad)"
  by (simp add: leaveAll_def)

lemma filter_single:
  "distinct xs \<Longrightarrow> x \<in> set xs \<Longrightarrow> P x \<Longrightarrow> \<forall>y \<in> set xs. P y \<longrightarrow> y = x \<Longrightarrow> filter P xs = [x]"
proof (induction xs)
  case Nil
  then show ?case by simp
next
  case (Cons a xs)
  have d: "distinct xs" and a: "a \<notin> set xs" using Cons.prems(1) by simp_all
  have all: "\<forall>y \<in> set xs. P y \<longrightarrow> y = x" using Cons.prems(4) by simp
  show ?case
  proof (cases "a = x")
    case True
    have "\<forall>y \<in> set xs. \<not> P y"
    proof
      fix y assume y: "y \<in> set xs"
      show "\<not> P y"
      proof
        assume "P y"
        with all y have "y = x" by simp
        with y a True show False by simp
      qed
    qed
    then have "filter P xs = []" by (simp add: filter_empty_conv)
    with True Cons.prems(3) show ?thesis by simp
  next
    case False
    have "\<not> P a"
    proof
      assume "P a"
      with Cons.prems(4) have "a = x" by simp
      with False show False by simp
    qed
    moreover have "x \<in> set xs" using Cons.prems(2) False by simp
    then have "filter P xs = [x]" using Cons.IH [OF d _ Cons.prems(3) all] by simp
    ultimately show ?thesis by simp
  qed
qed

lemma own_room_init: "own_room k [] init"
  by (simp add: own_room_def init_def lookup_def)

lemma own_room_connection:
  assumes "own_room k cs st" "s \<notin> set cs"
  shows "own_room k (s # cs) (st\<lparr>rooms := socket_join s s (rooms st)\<rparr>)"
  using assms by (auto simp: own_room_def distinct_socket_join set_socket_join)

lemma own_room_registerUser:
  assumes "own_room k cs st" "s \<in> set cs" "registerUser s n (detach s st) = Inr (st', acts)"
  shows "own_room k cs st'"
  using assms by (auto simp: own_room_def registerUser_def lookup_update split: if_splits)

lemma own_room_joinRoom:
  assumes "own_room k cs st" "s \<in> set cs" "r \<noteq> k" "joinRoom s r now st = Inr (st', acts)"
  shows "own_room k cs st'"
  using assms
  by (auto simp: own_room_def joinRoom_def Let_def lookup_update distinct_socket_join
      distinct_socket_leave set_socket_join set_socket_leave split: option.splits if_splits)

lemma own_room_leaveRoom:
  assumes "own_room k cs st" "leaveRoom s now st = Inr (st', acts)"
  shows "own_room k cs st'"
  using assms
  by (auto simp: own_room_def leaveRoom_def Let_def lookup_update
      distinct_socket_leave set_socket_leave split: option.splits if_splits)

lemma own_room_same:
  assumes "own_room k cs st" "onlineUsers st' = onlineUsers st" "rooms st' = rooms st"
  shows "own_room k cs st'"
  using assms by (simp add: own_room_def)

lemma own_room_disconnect:
  assumes "own_room k cs st"
    and "disconnect s now (detach s (st\<lparr>rooms := leaveAll s (rooms st)\<rparr>)) = Inr (st', acts)"
  shows "own_room k (removeAll s cs) st'"
  using assms
  by (auto simp: own_room_def disconnect_def Let_def lookup_delete distinct_leaveAll set_leaveAll
      split: if_splits)

lemma unchanged_handlers:
  shows "groupMessage s dat st = Inr (st', acts) \<Longrightarrow>
           onlineUsers st' = onlineUsers st \<and> rooms st' = rooms st"
    and "privateMessage s dat saved st = Inr (st', acts) \<Longrightarrow>
           onlineUsers st' = onlineUsers st \<and> rooms st' = rooms st"
    and "typing s dat st = Inr (st', acts) \<Longrightarrow>
           onlineUsers st' = onlineUsers st \<and> rooms st' = rooms st"
    and "stopTyping s dat st = Inr (st', acts) \<Longrightarrow>
           onlineUsers st' = onlineUsers st \<and> rooms st' = rooms st"
  by (auto simp: groupMessage_def privateMessage_def typing_def stopTyping_def Let_def
      split: option.splits if_splits)

lemma own_room_handle:
  assumes o: "own_room k cs st"
    and a: "admissible cs (s, e, now, saved)"
    and j: "e \<noteq> JoinRoom k"
    and h: "handle st (s, e, now, saved) = Inr (st', acts)"
  shows "own_room k (track cs (s, e, now, saved)) st'"
proof (cases e)
  case Connection
  with a h own_room_connection [OF o, of s] show ?thesis
    by (auto simp: admissible_def track_def)
next
  case (RegisterUser n)
  with a h own_room_registerUser [OF o, of s n st' acts] show ?thesis
    by (simp add: admissible_def track_def)
next
  case (JoinRoom r)
  with a h j own_room_joinRoom [OF o, of s r now st' acts] show ?thesis
    by (simp add: admissible_def track_def)
next
  case LeaveRoom
  with h own_room_leaveRoom [OF o, of s now st' acts] show ?thesis
    by (simp add: track_def)
next
  case (GroupMessage d)
  with h unchanged_handlers(1) [of s d st st' acts] own_room_same [OF o, of st'] show ?thesis
    by (simp add: track_def)
next
  case (PrivateMessage d)
  with h unchanged_handlers(2) [of s d saved st st' acts] own_room_same [OF o, of st']
  show ?thesis
    by (simp add: track_def)
next
  case (Typing d)
  with h unchanged_handlers(3) [of s d st st' acts] own_room_same [OF o, of st'] show ?thesis
    by (simp add: track_def)
next
  case (StopTyping d)
  with h unchanged_handlers(4) [of s d st st' acts] own_room_same [OF o, of st'] show ?thesis
    by (simp add: track_def)
next
  case Disconnect
  with h own_room_disconnect [OF o, of s now st' acts] show ?thesis
    by (simp add: track_def)
next
  case (SaveSettled n)
  show ?thesis
  proof (cases "n < length (pending st) \<and> ps_socket (pending st ! n) = s")
    case True
    with h SaveSettled have "groupMessage_resume n saved st = Inr (st', acts)" by simp
    from resume_fields [OF this] own_room_same [OF o, of st'] SaveSettled show ?thesis
      by (simp add: track_def)
  next
    case False
    with h SaveSettled have "st' = st" by auto
    with o SaveSettled show ?thesis by (simp add: track_def)
  qed
qed

lemma throw_track: "handle st i = Inl err \<Longrightarrow> track cs i = cs"
proof -
  assume h: "handle st i = Inl err"
  obtain s e now saved where i: "i = (s, e, now, saved)" by (cases i) auto
  from h i show ?thesis
    by (cases e) (simp_all add: track_def registerUser_def disconnect_def Let_def)
qed

lemma own_room_step:
  assumes "own_room k cs st" "admissible cs i" "\<not> joins k i"
  shows "own_room k (track cs i) (step st i)"
proof -
  obtain s e now saved where i: "i = (s, e, now, saved)" by (cases i) auto
  show ?thesis
  proof (cases "handle st i")
    case (Inl err)
    with own_room_same [OF assms(1), of "dropped st i"] throw_track [OF Inl, of cs]
    show ?thesis by (simp add: step_def)
  next
    case (Inr p)
    then obtain st' acts where p: "handle st (s, e, now, saved) = Inr (st', acts)"
      using i by (cases p) auto
    then have "step st i = st'" using i by (simp add: step_def)
    moreover have "e \<noteq> JoinRoom k" using assms(3) i by (simp add: joins_def)
    ultimately show ?thesis
      using own_room_handle [OF assms(1) _ _ p] assms(2) i by simp
  qed
qed

lemma own_room_run:
  "own_room k cs st \<Longrightarrow> disciplined cs ins \<Longrightarrow> \<forall>i \<in> set ins. \<not> joins k i \<Longrightarrow>
   \<exists>cs'. own_room k cs' (run st ins)"
proof (induction ins arbitrary: cs st)
  case Nil
  then show ?case by auto
next
  case (Cons i ins)
  from Cons.prems have "own_room k (track cs i) (step st i)"
    by (intro own_room_step) auto
  moreover from Cons.prems have "disciplined (track cs i) ins" by simp
  moreover from Cons.prems have "\<forall>i \<in> set ins. \<not> joins k i" by simp
  ultimately show ?case using Cons.IH by simp
qed

lemma own_room_members:
  assumes "own_room k cs st" "lookup (onlineUsers st) k = Some v"
  shows "members (rooms st) k = [k]"
proof -
  from assms have "k \<in> set cs" by (auto simp: own_room_def)
  with assms(1) have in_room: "(k, k) \<in> set (rooms st)" by (simp add: own_room_def)
  have only: "\<forall>y \<in> set (rooms st). snd y = k \<longrightarrow> y = (k, k)"
    using assms(1) by (auto simp: own_room_def)
  have "distinct (rooms st)" using assms(1) by (simp add: own_room_def)
  from filter_single [OF this in_room _ only]
  have "filter (\<lambda>p. snd p = k) (rooms st) = [(k, k)]" by simp
  then show ?thesis by (simp add: members_def)
qed

lemma recipient_alone:
  assumes "disciplined [] ins" "\<forall>i \<in> set ins. \<not> joins k i"
    and "lookup (onlineUsers (run init ins)) k = Some v"
  shows "members (rooms (run init ins)) k = [k]"
proof -
  from own_room_run [OF own_room_init assms(1,2)]
  obtain cs' where "own_room k cs' (run init ins)" by blast
  from own_room_members [OF this assms(3)] show ?thesis .
qed

text \<open>
  Claim C7, amended. For a registered session of a reached state, \<^verbatim>\<open>typing\<close> with a
  payload and \<^verbatim>\<open>stopTyping\<close> leave the state as it is and emit what \<open>indicator\<close> gives.
  In room mode (no truthy \<^verbatim>\<open>to_user\<close>, a room \<open>r\<close>) that is one notice, delivered to
  every other session whose room is \<open>r\<close> and not to the sender. In direct mode (a truthy
  \<^verbatim>\<open>to_user\<close>) it is one notice to the socket id \<open>k\<close> of the first session in registry
  order that has this name, which may be the sender itself; it is delivered to \<open>k\<close> and to
  nobody else when the events are those of connected sockets and none of them asks to join
  the room named \<open>k\<close>. When no session has the name (or the id found is the empty
  string), nothing is emitted. With neither a truthy \<^verbatim>\<open>to_user\<close> nor a room nothing is
  emitted.
\<close>

theorem typing_targets:
  assumes "st = run init ins"
    and "lookup (onlineUsers st) s = Some u"
  shows "typing s (Some d) st = Inr (st, indicator ''typing'' s u (to_user d) st)
       \<and> stopTyping s dat st =
           Inr (st, indicator ''stopTyping'' s u (case dat of None \<Rightarrow> None | Some d \<Rightarrow> to_user d) st)
       \<and> (\<forall>tag to.
            (\<forall>r. \<not> truthy_opt to \<and> room u = Some r \<and> truthy r \<longrightarrow>
               indicator tag s u to st =
                 [Emit (SocketTo s r) tag (FromUser (username u))
                    (filter (\<lambda>x. x \<noteq> s) (members (rooms st) r))]
               \<and> s \<notin> set (filter (\<lambda>x. x \<noteq> s) (members (rooms st) r))
               \<and> (\<forall>s' u'. s' \<noteq> s \<and> lookup (onlineUsers st) s' = Some u' \<and> room u' = Some r
                     \<longrightarrow> s' \<in> set (filter (\<lambda>x. x \<noteq> s) (members (rooms st) r))))
          \<and> (\<not> truthy_opt to \<and> \<not> truthy_opt (room u) \<longrightarrow> indicator tag s u to st = [])
          \<and> (\<forall>k. truthy_opt to \<and> findRecipient (onlineUsers st) to = Some k \<and> truthy k \<longrightarrow>
               indicator tag s u to st =
                 [Emit (IoTo k) tag (FromUser (username u)) (members (rooms st) k)]
               \<and> (disciplined [] ins \<and> (\<forall>i \<in> set ins. \<not> joins k i) \<longrightarrow>
                    members (rooms st) k = [k])
               \<and> (\<exists>v. lookup (onlineUsers st) k = Some v \<and> to = Some (username v))
               \<and> (\<exists>i < length (onlineUsers st). fst (onlineUsers st ! i) = k \<and>
                    (\<forall>j < i. \<forall>v. lookup (onlineUsers st) (fst (onlineUsers st ! j)) = Some v
                         \<longrightarrow> Some (username v) \<noteq> to)))
          \<and> (\<forall>k. truthy_opt to \<and> findRecipient (onlineUsers st) to = Some k \<and> \<not> truthy k \<longrightarrow>
               indicator tag s u to st = [])
          \<and> (truthy_opt to \<and> findRecipient (onlineUsers st) to = None \<longrightarrow>
               indicator tag s u to st = []))"
proof -
  have wf: "wf_state st" using assms(1) by (simp add: wf_reachable)
  have a: "typing s (Some d) st = Inr (st, indicator ''typing'' s u (to_user d) st)"
    using assms(2) by (simp add: typing_def)
  have b: "stopTyping s dat st =
           Inr (st, indicator ''stopTyping'' s u (case dat of None \<Rightarrow> None | Some d \<Rightarrow> to_user d) st)"
    using assms(2) by (simp add: stopTyping_def)
  have c: "\<forall>tag to.
            (\<forall>r. \<not> truthy_opt to \<and> room u = Some r \<and> truthy r \<longrightarrow>
               indicator tag s u to st =
                 [Emit (SocketTo s r) tag (FromUser (username u))
                    (filter (\<lambda>x. x \<noteq> s) (members (rooms st) r))]
               \<and> s \<notin> set (filter (\<lambda>x. x \<noteq> s) (members (rooms st) r))
               \<and> (\<forall>s' u'. s' \<noteq> s \<and> lookup (onlineUsers st) s' = Some u' \<and> room u' = Some r
                     \<longrightarrow> s' \<in> set (filter (\<lambda>x. x \<noteq> s) (members (rooms st) r))))
          \<and> (\<not> truthy_opt to \<and> \<not> truthy_opt (room u) \<longrightarrow> indicator tag s u to st = [])
          \<and> (\<forall>k. truthy_opt to \<and> findRecipient (onlineUsers st) to = Some k \<and> truthy k \<longrightarrow>
               indicator tag s u to st =
                 [Emit (IoTo k) tag (FromUser (username u)) (members (rooms st) k)]
               \<and> (disciplined [] ins \<and> (\<forall>i \<in> set ins. \<not> joins k i) \<longrightarrow>
                    members (rooms st) k = [k])
               \<and> (\<exists>v. lookup (onlineUsers st) k = Some v \<and> to = Some (username v))
               \<and> (\<exists>i < length (onlineUsers st). fst (onlineUsers st ! i) = k \<and>
                    (\<forall>j < i. \<forall>v. lookup (onlineUsers st) (fst (onlineUsers st ! j)) = Some v
                         \<longrightarrow> Some (username v) \<noteq> to)))
          \<and> (\<forall>k. truthy_opt to \<and> findRecipient (onlineUsers st) to = Some k \<and> \<not> truthy k \<longrightarrow>
               indicator tag s u to st = [])
          \<and> (truthy_opt to \<and> findRecipient (onlineUsers st) to = None \<longrightarrow>
               indicator tag s u to st = [])"
  proof (intro allI conjI impI)
    fix tag to r
    assume h: "\<not> truthy_opt to \<and> room u = Some r \<and> truthy r"
    then have h1: "\<not> truthy_opt to" and h2: "room u = Some r" and h3: "truthy r"
      by simp_all
    show "indicator tag s u to st =
                 [Emit (SocketTo s r) tag (FromUser (username u))
                    (filter (\<lambda>x. x \<noteq> s) (members (rooms st) r))]"
      by (rule indicator_room_mode(1) [OF wf assms(2) h1 h2 h3])
    show "s \<notin> set (filter (\<lambda>x. x \<noteq> s) (members (rooms st) r))"
      by simp
    fix s' u'
    assume "s' \<noteq> s \<and> lookup (onlineUsers st) s' = Some u' \<and> room u' = Some r"
    then show "s' \<in> set (filter (\<lambda>x. x \<noteq> s) (members (rooms st) r))"
      using indicator_room_mode(3) [OF wf assms(2) h1 h2 h3] by blast
  next
    fix tag to
    assume "\<not> truthy_opt to \<and> \<not> truthy_opt (room u)"
    then show "indicator tag s u to st = []"
      by (simp add: indicator_no_target)
  next
    fix tag to k
    assume h: "truthy_opt to \<and> findRecipient (onlineUsers st) to = Some k \<and> truthy k"
    then show "indicator tag s u to st =
                 [Emit (IoTo k) tag (FromUser (username u)) (members (rooms st) k)]"
      by (simp add: indicator_direct_mode)
    from h obtain v where v: "lookup (onlineUsers st) k = Some v"
      using findRecipient_Some by blast
    show "members (rooms st) k = [k]"
      if "disciplined [] ins \<and> (\<forall>i \<in> set ins. \<not> joins k i)"
      using that recipient_alone [of ins k v] v assms(1) by blast
    from h show "\<exists>v. lookup (onlineUsers st) k = Some v \<and> to = Some (username v)"
      using findRecipient_Some by blast
    from h show "\<exists>i < length (onlineUsers st). fst (onlineUsers st ! i) = k \<and>
                    (\<forall>j < i. \<forall>v. lookup (onlineUsers st) (fst (onlineUsers st ! j)) = Some v
                         \<longrightarrow> Some (username v) \<noteq> to)"
      using findRecipient_Some by blast
  next
    fix tag to k
    assume "truthy_opt to \<and> findRecipient (onlineUsers st) to = Some k \<and> \<not> truthy k"
    then show "indicator tag s u to st = []"
      by (simp add: indicator_direct_mode)
  next
    fix tag to
    assume "truthy_opt to \<and> findRecipient (onlineUsers st) to = None"
    then show "indicator tag s u to st = []"
      by (simp add: indicator_direct_mode)
  qed
  from a b c show ?thesis by (intro conjI)
qed

text \<open>
  Alice in sports: room mode reaches Bob only, direct mode to bob reaches Bob only, and a
  stop notice for carol, who is not connected, reaches nobody.
\<close>

theorem typing_targets_witness:
  "lookup (onlineUsers (run init alice_bob_sports)) ''c1''
     = Some \<lparr>username = ''alice'', room = Some ''sports''\<rparr>
   \<and> disciplined [] alice_bob_sports
   \<and> list_all (\<lambda>i. \<not> joins ''c2'' i) alice_bob_sports
   \<and> typing ''c1'' (Some \<lparr>to_user = None, message = None\<rparr>) (run init alice_bob_sports)
       = Inr (run init alice_bob_sports,
              [Emit (SocketTo ''c1'' ''sports'') ''typing'' (FromUser ''alice'') [''c2'']])
   \<and> typing ''c1'' (Some \<lparr>to_user = Some ''bob'', message = None\<rparr>) (run init alice_bob_sports)
       = Inr (run init alice_bob_sports,
              [Emit (IoTo ''c2'') ''typing'' (FromUser ''alice'') [''c2'']])
   \<and> stopTyping ''c1'' (Some \<lparr>to_user = Some ''carol'', message = None\<rparr>)
        (run init alice_bob_sports)
       = Inr (run init alice_bob_sports, [])"
proof -
  let ?st = "run init alice_bob_sports"
  let ?u = "\<lparr>username = ''alice'', room = Some ''sports''\<rparr>"
  have h: "lookup (onlineUsers ?st) ''c1'' = Some ?u"
    by (simp add: run_alice_bob_sports lookup_def)
  have d: "disciplined [] alice_bob_sports"
    by (simp add: alice_bob_sports_def admissible_def track_def)
  have j: "list_all (\<lambda>i. \<not> joins ''c2'' i) alice_bob_sports"
    by (simp add: alice_bob_sports_def joins_def)
  then have j': "\<forall>i \<in> set alice_bob_sports. \<not> joins ''c2'' i"
    by (simp add: list_all_iff)
  have f: "findRecipient (onlineUsers ?st) (Some ''bob'') = Some ''c2''"
    by (simp add: run_alice_bob_sports findRecipient_def lookup_def)
  have t: "truthy_opt (Some ''bob'')" "truthy ''c2''"
    by (simp_all add: truthy_opt_def truthy_def)
  note T = typing_targets [OF refl h]
  have i1: "indicator ''typing'' ''c1'' ?u None ?st
            = [Emit (SocketTo ''c1'' ''sports'') ''typing'' (FromUser ''alice'') [''c2'']]"
    by (simp add: run_alice_bob_sports handler_defs)
  have m: "members (rooms ?st) ''c2'' = [''c2'']"
    using T [of undefined None] f t d j' by blast
  have i2: "indicator ''typing'' ''c1'' ?u (Some ''bob'') ?st
            = [Emit (IoTo ''c2'') ''typing'' (FromUser ''alice'') [''c2'']]"
    using T [of undefined None] f t m by fastforce
  have i3: "indicator ''stopTyping'' ''c1'' ?u (Some ''carol'') ?st = []"
    by (simp add: run_alice_bob_sports handler_defs)
  have 1: "typing ''c1'' (Some \<lparr>to_user = None, message = None\<rparr>) ?st
       = Inr (?st, [Emit (SocketTo ''c1'' ''sports'') ''typing'' (FromUser ''alice'') [''c2'']])"
    using T [of "\<lparr>to_user = None, message = None\<rparr>"] i1 by simp
  have 2: "typing ''c1'' (Some \<lparr>to_user = Some ''bob'', message = None\<rparr>) ?st
       = Inr (?st, [Emit (IoTo ''c2'') ''typing'' (FromUser ''alice'') [''c2'']])"
    using T [of "\<lparr>to_user = Some ''bob'', message = None\<rparr>"] i2 by simp
  have 3: "stopTyping ''c1'' (Some \<lparr>to_user = Some ''carol'', message = None\<rparr>) ?st
       = Inr (?st, [])"
    using T [of _ "Some \<lparr>to_user = Some ''carol'', message = None\<rparr>"] i3
    by simp
  from h d j 1 2 3 show ?thesis by (intro conjI)
qed

text \<open>
  What the theorem leaves open: \<^verbatim>\<open>joinRoom\<close> takes any string as a room and never looks
  at \<^verbatim>\<open>ROOMS\<close>. After Alice has joined the room named by the socket id of Bob, a notice
  that Carol sends to bob is delivered to Alice too.
\<close>

lemma run_alice_listens:
  "run init alice_listens =
     \<lparr>onlineUsers = [(''c1'', \<lparr>username = ''alice'', room = Some ''c2''\<rparr>),
                     (''c2'', \<lparr>username = ''bob'', room = Some ''sports''\<rparr>),
                     (''c3'', \<lparr>username = ''carol'', room = None\<rparr>)],
      rooms = [(''c1'', ''c1''), (''c2'', ''c2''), (''c2'', ''sports''), (''c1'', ''c2''),
               (''c3'', ''c3'')],
      groupMessages = [], privateMessages = [], pending = []\<rparr>"
  by (simp add: alice_listens_def run_append run_alice_bob_sports handler_defs step_def)

lemma direct_notice_in_a_joined_room:
  "typing ''c3'' (Some \<lparr>to_user = Some ''bob'', message = None\<rparr>) (run init alice_listens)
     = Inr (run init alice_listens,
            [Emit (IoTo ''c2'') ''typing'' (FromUser ''carol'') [''c2'', ''c1'']])"
  by (simp add: run_alice_listens handler_defs)

subsection \<open>Display names\<close>

text \<open>
  A second \<^verbatim>\<open>registerUser\<close> on the same connection replaces the stored name.
\<close>

theorem displayName_immutable_counterexample:
  "lookup (onlineUsers (run init [(''c1'', Connection, 0, None),
                                  (''c1'', RegisterUser ''alice'', 1, None)])) ''c1''
     = Some \<lparr>username = ''alice'', room = None\<rparr>
   \<and> lookup (onlineUsers (run init [(''c1'', Connection, 0, None),
                                    (''c1'', RegisterUser ''alice'', 1, None),
                                    (''c1'', RegisterUser ''bob'', 2, None)])) ''c1''
     = Some \<lparr>username = ''bob'', room = None\<rparr>"
  by (simp add: handler_defs run_defs)

lemma username_joinRoom:
  "lookup (onlineUsers st) s = Some u \<Longrightarrow> joinRoom s r now st = Inr (st', acts) \<Longrightarrow>
   \<exists>u'. lookup (onlineUsers st') s = Some u' \<and> username u' = username u"
  by (auto simp: joinRoom_def Let_def lookup_update split: option.splits if_splits prod.splits)

lemma username_leaveRoom:
  "lookup (onlineUsers st) s = Some u \<Longrightarrow> leaveRoom s now st = Inr (st', acts) \<Longrightarrow>
   \<exists>u'. lookup (onlineUsers st') s = Some u' \<and> username u' = username u"
  by (auto simp: leaveRoom_def Let_def lookup_update split: option.splits if_splits)

lemma username_others:
  assumes "lookup (onlineUsers st) s = Some u"
  shows "groupMessage s dat st = Inr (st', acts) \<Longrightarrow> lookup (onlineUsers st') s = Some u"
    and "privateMessage s dat saved st = Inr (st', acts) \<Longrightarrow> lookup (onlineUsers st') s = Some u"
    and "typing s dat st = Inr (st', acts) \<Longrightarrow> lookup (onlineUsers st') s = Some u"
    and "stopTyping s dat st = Inr (st', acts) \<Longrightarrow> lookup (onlineUsers st') s = Some u"
  using assms
  by (auto simp: groupMessage_def privateMessage_def typing_def stopTyping_def Let_def
      split: option.splits if_splits)

lemma username_handle:
  assumes "lookup (onlineUsers st) s = Some u"
    and "handle st (c, e, now, saved) = Inr (st', acts)"
    and "\<not> (c = s \<and> (e = Disconnect \<or> (\<exists>n. e = RegisterUser n)))"
  shows "\<exists>u'. lookup (onlineUsers st') s = Some u' \<and> username u' = username u"
proof (cases "c = s")
  case False
  then have "s \<noteq> c" by simp
  from frame_handle [OF this assms(2)] assms(1) show ?thesis by simp
next
  case True
  show ?thesis
  proof (cases e)
    case Connection
    with assms(2) have "onlineUsers st' = onlineUsers st" by auto
    with assms(1) show ?thesis by simp
  next
    case (RegisterUser n)
    with True assms(3) show ?thesis by simp
  next
    case (JoinRoom r)
    with True assms(2) have "joinRoom s r now st = Inr (st', acts)" by simp
    from username_joinRoom [OF assms(1) this] show ?thesis .
  next
    case LeaveRoom
    with True assms(2) have "leaveRoom s now st = Inr (st', acts)" by simp
    from username_leaveRoom [OF assms(1) this] show ?thesis .
  next
    case (GroupMessage d)
    with True assms(2) have "groupMessage s d st = Inr (st', acts)" by simp
    from username_others(1) [OF assms(1) this] show ?thesis by simp
  next
    case (PrivateMessage d)
    with True assms(2) have "privateMessage s d saved st = Inr (st', acts)" by simp
    from username_others(2) [OF assms(1) this] show ?thesis by simp
  next
    case (Typing d)
    with True assms(2) have "typing s d st = Inr (st', acts)" by simp
    from username_others(3) [OF assms(1) this] show ?thesis by simp
  next
    case (StopTyping d)
    with True assms(2) have "stopTyping s d st = Inr (st', acts)" by simp
    from username_others(4) [OF assms(1) this] show ?thesis by simp
  next
    case Disconnect
    with True assms(3) show ?thesis by simp
  next
    case (SaveSettled n)
    with assms(2) have "onlineUsers st' = onlineUsers st"
      by (auto split: if_splits dest: resume_fields(1))
    with assms(1) show ?thesis by simp
  qed
qed

lemma username_step:
  assumes "lookup (onlineUsers st) s = Some u" and "\<not> renames s i"
  shows "\<exists>u'. lookup (onlineUsers (step st i) ) s = Some u' \<and> username u' = username u"
proof -
  obtain c e now saved where i: "i = (c, e, now, saved)" by (cases i) auto
  have n: "\<not> (c = s \<and> (e = Disconnect \<or> (\<exists>n. e = RegisterUser n)))"
    using assms(2) i by (auto simp: renames_def)
  show ?thesis
  proof (cases "handle st i")
    case (Inl err)
    then show ?thesis using assms(1) by (simp add: step_def)
  next
    case (Inr p)
    then obtain st' acts where p: "handle st (c, e, now, saved) = Inr (st', acts)"
      using i by (cases p) auto
    then have "step st i = st'" using i by (simp add: step_def)
    with username_handle [OF assms(1) p n] show ?thesis by simp
  qed
qed

lemma username_run:
  "lookup (onlineUsers st) s = Some u \<Longrightarrow> \<forall>i \<in> set ins. \<not> renames s i \<Longrightarrow>
   \<exists>u'. lookup (onlineUsers (run st ins)) s = Some u' \<and> username u' = username u"
proof (induction ins arbitrary: st u)
  case Nil
  then show ?case by simp
next
  case (Cons i ins)
  from Cons.prems have "\<not> renames s i" by simp
  with Cons.prems(1) obtain u1 where
    u1: "lookup (onlineUsers (step st i)) s = Some u1" "username u1 = username u"
    using username_step by blast
  from Cons.prems have r: "\<forall>i \<in> set ins. \<not> renames s i" by simp
  from Cons.IH [OF u1(1) r] u1(2) show ?case by simp
qed

text \<open>
  Claim C8, amended. The name stored for a connection is the one given by its last
  \<^verbatim>\<open>registerUser\<close>, which overwrites the entry; no sequence of events that has neither a
  \<^verbatim>\<open>registerUser\<close> nor a \<^verbatim>\<open>disconnect\<close> of that connection changes the name found by
  \<open>lookup\<close>.
\<close>

theorem displayName_changed_only_by_registerUser:
  assumes "lookup (onlineUsers st) s = Some u"
    and "\<forall>i \<in> set ins. \<not> renames s i"
  shows "(\<exists>u'. lookup (onlineUsers (run st ins)) s = Some u' \<and> username u' = username u)
       \<and> lookup (onlineUsers (step st (s, RegisterUser n, now, saved))) s
           = Some \<lparr>username = n, room = None\<rparr>"
  using username_run [OF assms] by (simp add: step_def registerUser_def lookup_update)

text \<open>
  Alice changes rooms and Bob registers again and disconnects: Alice keeps her name.
\<close>

theorem displayName_changed_only_by_registerUser_witness:
  "lookup (onlineUsers (run init alice_bob_sports)) ''c1''
     = Some \<lparr>username = ''alice'', room = Some ''sports''\<rparr>
   \<and> \<not> renames ''c1'' (''c1'', JoinRoom ''devops'', 4, None)
   \<and> \<not> renames ''c1'' (''c2'', RegisterUser ''al'', 5, None)
   \<and> \<not> renames ''c1'' (''c1'', LeaveRoom, 6, None)
   \<and> \<not> renames ''c1'' (''c2'', Disconnect, 7, None)
   \<and> (\<exists>u'. lookup (onlineUsers (run (run init alice_bob_sports)
               [(''c1'', JoinRoom ''devops'', 4, None), (''c2'', RegisterUser ''al'', 5, None),
                (''c1'', LeaveRoom, 6, None), (''c2'', Disconnect, 7, None)])) ''c1'' = Some u'
            \<and> username u' = ''alice'')"
proof -
  have h: "lookup (onlineUsers (run init alice_bob_sports)) ''c1''
     = Some \<lparr>username = ''alice'', room = Some ''sports''\<rparr>"
    by (simp add: run_alice_bob_sports lookup_def)
  have r: "\<forall>i \<in> set [(''c1'', JoinRoom ''devops'', 4, None), (''c2'', RegisterUser ''al'', 5, None),
                  (''c1'', LeaveRoom, 6, None), (''c2'', Disconnect, 7, None)].
         \<not> renames ''c1'' i"
    by (simp add: renames_def)
  have c: "\<exists>u'. lookup (onlineUsers (run (run init alice_bob_sports)
               [(''c1'', JoinRoom ''devops'', 4, None), (''c2'', RegisterUser ''al'', 5, None),
                (''c1'', LeaveRoom, 6, None), (''c2'', Disconnect, 7, None)])) ''c1'' = Some u'
            \<and> username u' = ''alice''"
    using displayName_changed_only_by_registerUser [OF h r, of "''x''" 0 None]
    by (elim conjE exE) (rule exI, simp)
  have r': "\<not> renames ''c1'' (''c1'', JoinRoom ''devops'', 4, None)"
    "\<not> renames ''c1'' (''c2'', RegisterUser ''al'', 5, None)"
    "\<not> renames ''c1'' (''c1'', LeaveRoom, 6, None)"
    "\<not> renames ''c1'' (''c2'', Disconnect, 7, None)"
    by (simp_all add: renames_def)
  from h r' c show ?thesis by (intro conjI)
qed

subsection \<open>The private history query\<close>

text \<open>
  Claim C9. The query for the pair (a, b) returns the same documents, in the same order,
  as the query for (b, a).
\<close>

theorem queryPrivate_symmetric:
  "queryPrivate a b docs = queryPrivate b a docs
   \<and> set (queryPrivate a b docs) = set (queryPrivate b a docs)"
proof -
  have "filter (\<lambda>m. (pm_from_user m = a \<and> pm_to_user m = Some b)
            \<or> (pm_from_user m = b \<and> pm_to_user m = Some a)) docs
      = filter (\<lambda>m. (pm_from_user m = b \<and> pm_to_user m = Some a)
            \<or> (pm_from_user m = a \<and> pm_to_user m = Some b)) docs"
    by (rule filter_cong) auto
  then have "queryPrivate a b docs = queryPrivate b a docs"
    unfolding queryPrivate_def by (rule arg_cong)
  then show ?thesis by simp
qed

text \<open>
  Three stored documents, two of them between alice and bob.
\<close>

theorem queryPrivate_symmetric_witness:
  "queryPrivate ''bob'' ''alice''
     [\<lparr>pm_from_user = ''alice'', pm_to_user = Some ''bob'', pm_message = Some ''b'', pm_date_sent = 5\<rparr>,
      \<lparr>pm_from_user = ''carol'', pm_to_user = Some ''bob'', pm_message = Some ''c'', pm_date_sent = 4\<rparr>,
      \<lparr>pm_from_user = ''bob'', pm_to_user = Some ''alice'', pm_message = Some ''a'', pm_date_sent = 3\<rparr>]
   = [\<lparr>pm_from_user = ''bob'', pm_to_user = Some ''alice'', pm_message = Some ''a'', pm_date_sent = 3\<rparr>,
      \<lparr>pm_from_user = ''alice'', pm_to_user = Some ''bob'', pm_message = Some ''b'', pm_date_sent = 5\<rparr>]"
proof -
  have "queryPrivate ''alice'' ''bob''
     [\<lparr>pm_from_user = ''alice'', pm_to_user = Some ''bob'', pm_message = Some ''b'', pm_date_sent = 5\<rparr>,
      \<lparr>pm_from_user = ''carol'', pm_to_user = Some ''bob'', pm_message = Some ''c'', pm_date_sent = 4\<rparr>,
      \<lparr>pm_from_user = ''bob'', pm_to_user = Some ''alice'', pm_message = Some ''a'', pm_date_sent = 3\<rparr>]
   = [\<lparr>pm_from_user = ''bob'', pm_to_user = Some ''alice'', pm_message = Some ''a'', pm_date_sent = 3\<rparr>,
      \<lparr>pm_from_user = ''alice'', pm_to_user = Some ''bob'', pm_message = Some ''b'', pm_date_sent = 5\<rparr>]"
    by (simp add: queryPrivate_def)
  with queryPrivate_symmetric [of "''alice''" "''bob''"] show ?thesis by simp
qed

subsection \<open>The frame of a handler\<close>

text \<open>
  Claim C10. An event of connection \<open>c\<close>, whatever the event and whether its handler
  returns or throws, leaves the registry entry of every other connection as it was.
\<close>

theorem handler_frame:
  assumes "c' \<noteq> c"
  shows "lookup (onlineUsers (step st (c, e, now, saved))) c' = lookup (onlineUsers st) c'"
  using assms by (auto simp: step_def split: sum.splits dest: frame_handle)

text \<open>
  Bob joins another room, or disconnects: the entry of Alice is the same.
\<close>

theorem handler_frame_witness:
  "''c1'' \<noteq> ''c2''
   \<and> lookup (onlineUsers (step (run init alice_bob_sports) (''c2'', JoinRoom ''devops'', 4, None)))
       ''c1'' = Some \<lparr>username = ''alice'', room = Some ''sports''\<rparr>
   \<and> lookup (onlineUsers (step (run init alice_bob_sports) (''c2'', Disconnect, 4, None)))
       ''c1'' = Some \<lparr>username = ''alice'', room = Some ''sports''\<rparr>"
proof -
  have n: "''c1'' \<noteq> ''c2''" by simp
  have h: "lookup (onlineUsers (run init alice_bob_sports)) ''c1''
     = Some \<lparr>username = ''alice'', room = Some ''sports''\<rparr>"
    by (simp add: run_alice_bob_sports lookup_def)
  from handler_frame [OF n, of "run init alice_bob_sports" "JoinRoom ''devops''" 4 None]
       handler_frame [OF n, of "run init alice_bob_sports" Disconnect 4 None] h n
  show ?thesis by simp
qed

end
